theory Spec2Isabelle
  imports Main
begin

section \<open>The node tree and the cursor\<close>

text \<open>
  The text commands of \<^verbatim>\<open>src/commands/text.ts\<close> work on a tree of nodes that are
  linked by pointers: every node has a parent, a left and a right sibling and the two ends
  of its list of children. Nodes are mutated in place and the cursor and the anticursor
  hold references to them, so the tree is modelled as a store from references to nodes.
  A reference that JavaScript writes as \<^verbatim>\<open>0\<close> (no node) is \<^term>\<open>None\<close>.
  JavaScript strings are modelled as \<^typ>\<open>string\<close>, one \<^typ>\<open>char\<close> for each code unit.
\<close>

type_synonym ref = nat

datatype direction = L | R

text \<open>The source writes the opposite of a direction \<^verbatim>\<open>dir\<close> as \<^verbatim>\<open>-dir\<close>.\<close>

fun opp :: "direction \<Rightarrow> direction" where
  "opp L = R"
| "opp R = L"

datatype error = TypeError | PrayFailed | IndexSizeError | ParseFailure

datatype node_kind = TextBlock | TextPiece | VanillaSymbol | MathBlock | RootMathCommand

record node =
  kind :: node_kind
  parent :: "ref option"
  sibL :: "ref option"
  sibR :: "ref option"
  endL :: "ref option"
  endR :: "ref option"
  textStr :: string
  ctrlSeq :: string
  anticursorPosition :: "nat option"

record store =
  heap :: "ref \<Rightarrow> node"
  fresh :: ref

text \<open>\<^verbatim>\<open>node[dir]\<close> and \<^verbatim>\<open>node.getEnd(dir)\<close>.\<close>

fun sib :: "direction \<Rightarrow> node \<Rightarrow> ref option" where
  "sib L n = sibL n"
| "sib R n = sibR n"

fun getEnd :: "direction \<Rightarrow> node \<Rightarrow> ref option" where
  "getEnd L n = endL n"
| "getEnd R n = endR n"

definition upd :: "ref \<Rightarrow> (node \<Rightarrow> node) \<Rightarrow> store \<Rightarrow> store" where
  "upd x f s = s\<lparr>heap := (heap s)(x := f (heap s x))\<rparr>"

text \<open>
  \<^verbatim>\<open>new TextPiece(text)\<close>, \<^verbatim>\<open>new TextBlock()\<close>, \<^verbatim>\<open>new VanillaSymbol(ctrlSeq, ...)\<close>: a
  new object, different from every object that exists, with no links yet.
\<close>

definition new_node :: "node_kind \<Rightarrow> string \<Rightarrow> string \<Rightarrow> store \<Rightarrow> ref \<times> store" where
  "new_node k t cs s =
     (fresh s,
      s\<lparr>heap := (heap s)(fresh s :=
           \<lparr>kind = k, parent = None, sibL = None, sibR = None, endL = None, endR = None,
            textStr = t, ctrlSeq = cs, anticursorPosition = None\<rparr>),
        fresh := Suc (fresh s)\<rparr>)"

text \<open>
  Modelled from the spec: the tree primitive's \<^verbatim>\<open>adopt(parent, leftward, rightward)\<close>
  is not under src/. The spec describes it as adopting a node as a child at a given
  position among the existing children, on a node with parent, left and right sibling
  links and leftmost and rightmost child pointers. The node \<open>n\<close> becomes the child of \<open>p\<close>
  between \<open>leftward\<close> and \<open>rightward\<close>; the links are written in this order.
\<close>

definition adopt :: "ref \<Rightarrow> ref \<Rightarrow> ref option \<Rightarrow> ref option \<Rightarrow> store \<Rightarrow> store" where
  "adopt n p leftward rightward s =
     (let s1 = (case leftward of None \<Rightarrow> upd p (endL_update (\<lambda>_. Some n)) s | Some l \<Rightarrow> s);
          s2 = (case rightward of
                  None \<Rightarrow> upd p (endR_update (\<lambda>_. Some n)) s1
                | Some r \<Rightarrow> upd r (sibL_update (\<lambda>_. Some n)) s1);
          s3 = upd n (sibR_update (\<lambda>_. rightward)) s2;
          s4 = upd n (\<lambda>x. x\<lparr>sibL := leftward, parent := Some p\<rparr>) s3
      in (case leftward of None \<Rightarrow> s4 | Some l \<Rightarrow> upd l (sibR_update (\<lambda>_. Some n)) s4))"

text \<open>
  Modelled from the spec: the tree primitive's \<^verbatim>\<open>disown()\<close> is not under src/ (the spec:
  disown or remove a node). It unlinks the run of siblings from \<open>l\<close> to \<open>r\<close> from their
  parent and from their outer neighbours; the pointers of the disowned nodes themselves
  keep their old values. A single node is the run from itself to itself. A node with no
  parent cannot be disowned: reading the ends of no parent is a TypeError.
\<close>

definition frag_disown :: "ref \<Rightarrow> ref \<Rightarrow> store \<Rightarrow> error + store" where
  "frag_disown l r s =
     (case parent (heap s l) of
        None \<Rightarrow> Inl TypeError
      | Some p \<Rightarrow>
          (let ll = sibL (heap s l); rr = sibR (heap s r);
               s1 = (case ll of
                       Some x \<Rightarrow> upd x (sibR_update (\<lambda>_. rr)) s
                     | None \<Rightarrow> upd p (endL_update (\<lambda>_. rr)) s);
               s2 = (case rr of
                       Some y \<Rightarrow> upd y (sibL_update (\<lambda>_. ll)) s1
                     | None \<Rightarrow> upd p (endR_update (\<lambda>_. ll)) s1)
           in Inr s2))"

definition disown :: "ref \<Rightarrow> store \<Rightarrow> error + store" where
  "disown n s = frag_disown n n s"

text \<open>\<^verbatim>\<open>remove()\<close> takes the node out of the rendered view and disowns it.\<close>

definition remove_node :: "ref \<Rightarrow> store \<Rightarrow> error + store" where
  "remove_node n s = disown n s"

text \<open>
  Modelled from the spec: the traversal of the children of a node (\<^verbatim>\<open>foldChildren\<close>) is
  not under src/. It starts at the leftmost child and follows the right sibling links until
  it has passed the rightmost child. On a chain of links that never reaches that point it
  does not return (\<^term>\<open>None\<close>); stepping off the chain onto no node is a TypeError.
\<close>

partial_function (option) foldNodes_loop ::
  "store \<Rightarrow> ('a \<Rightarrow> ref \<Rightarrow> 'a) \<Rightarrow> ref option \<Rightarrow> ref option \<Rightarrow> 'a \<Rightarrow> (error + 'a) option" where
  "foldNodes_loop s f el stop acc =
     (if el = stop then Some (Inr acc)
      else (case el of
              None \<Rightarrow> Some (Inl TypeError)
            | Some e \<Rightarrow> foldNodes_loop s f (sibR (heap s e)) stop (f acc e)))"

definition foldChildren :: "store \<Rightarrow> ref \<Rightarrow> 'a \<Rightarrow> ('a \<Rightarrow> ref \<Rightarrow> 'a) \<Rightarrow> (error + 'a) option" where
  "foldChildren s p acc f =
     (case endL (heap s p) of
        None \<Rightarrow> Some (Inr acc)
      | Some el \<Rightarrow>
          (case endR (heap s p) of
             None \<Rightarrow> Some (Inr acc)
           | Some e \<Rightarrow> foldNodes_loop s f (Some el) (sibR (heap s e)) acc))"

text \<open>\<^verbatim>\<open>isEmpty()\<close> of a node that is not a math command: it has no child.\<close>

definition isEmpty :: "store \<Rightarrow> ref \<Rightarrow> bool" where
  "isEmpty s p = (endL (heap s p) = None \<and> endR (heap s p) = None)"

subsection \<open>The cursor\<close>

text \<open>
  The cursor is a gap between two siblings (either may be absent) in a parent block. It
  carries the anticursor (the other end of a selection being made), the selection (the
  run of siblings from its left end to its right end) and the queue of announcements of
  \<^verbatim>\<open>cursor.controller.aria\<close>.
\<close>

record point =
  pparent :: ref
  pL :: "ref option"
  pR :: "ref option"

datatype aria_item =
  Queued string | QueuedNode ref | QueuedDirOf direction | QueuedDirEndOf direction | Alerted string

record cursor =
  cparent :: ref
  cL :: "ref option"
  cR :: "ref option"
  anticursor :: "point option"
  selection :: "(ref \<times> ref) option"
  aria :: "aria_item list"

fun cdir :: "direction \<Rightarrow> cursor \<Rightarrow> ref option" where
  "cdir L c = cL c"
| "cdir R c = cR c"

fun set_cdir :: "direction \<Rightarrow> ref option \<Rightarrow> cursor \<Rightarrow> cursor" where
  "set_cdir L v c = c\<lparr>cL := v\<rparr>"
| "set_cdir R v c = c\<lparr>cR := v\<rparr>"

fun pdir :: "direction \<Rightarrow> point \<Rightarrow> ref option" where
  "pdir L a = pL a"
| "pdir R a = pR a"

fun set_pdir :: "direction \<Rightarrow> ref option \<Rightarrow> point \<Rightarrow> point" where
  "set_pdir L v a = a\<lparr>pL := v\<rparr>"
| "set_pdir R v a = a\<lparr>pR := v\<rparr>"

definition aria_queue :: "aria_item \<Rightarrow> cursor \<Rightarrow> cursor" where
  "aria_queue x c = c\<lparr>aria := aria c @ [x]\<rparr>"

text \<open>
  Modelled from the spec: the cursor's own moves are not under src/. The spec describes the
  cursor as a movable gap between two sibling nodes or at an end of a block.
  \<^verbatim>\<open>insDirOf(dir, el)\<close> puts the gap next to \<open>el\<close> on its \<open>dir\<close> side, in the parent of \<open>el\<close>
  (a node outside the tree has no parent to put the cursor in: a TypeError);
  \<^verbatim>\<open>insAtDirEnd(dir, el)\<close> puts it inside \<open>el\<close> at the \<open>dir\<close> end. The notification of the
  block that the cursor leaves is the separate operation \<open>blur\<close> below.
\<close>

definition insDirOf :: "direction \<Rightarrow> ref \<Rightarrow> store \<Rightarrow> cursor \<Rightarrow> error + cursor" where
  "insDirOf d el s c =
     (case parent (heap s el) of
        None \<Rightarrow> Inl TypeError
      | Some p \<Rightarrow> Inr (set_cdir (opp d) (Some el) (set_cdir d (sib d (heap s el)) (c\<lparr>cparent := p\<rparr>))))"

definition insLeftOf :: "ref \<Rightarrow> store \<Rightarrow> cursor \<Rightarrow> error + cursor" where
  "insLeftOf el s c = insDirOf L el s c"

definition insRightOf :: "ref \<Rightarrow> store \<Rightarrow> cursor \<Rightarrow> error + cursor" where
  "insRightOf el s c = insDirOf R el s c"

definition insAtDirEnd :: "direction \<Rightarrow> ref \<Rightarrow> store \<Rightarrow> cursor \<Rightarrow> cursor" where
  "insAtDirEnd d el s c =
     set_cdir (opp d) (getEnd d (heap s el)) (set_cdir d None (c\<lparr>cparent := el\<rparr>))"

text \<open>
  Modelled from the spec: \<^verbatim>\<open>createDir(dir, cursor)\<close> and \<^verbatim>\<open>createLeftOf(cursor)\<close> of a
  node without blocks are not under src/ (the spec: place the node in the tree at the
  cursor). The node is adopted by the cursor's parent between the cursor's neighbours and
  becomes the cursor's \<open>dir\<close> neighbour.
\<close>

definition createDir :: "direction \<Rightarrow> ref \<Rightarrow> store \<Rightarrow> cursor \<Rightarrow> store \<times> cursor" where
  "createDir d n s c = (adopt n (cparent c) (cL c) (cR c) s, set_cdir d (Some n) c)"

definition createLeftOf :: "ref \<Rightarrow> store \<Rightarrow> cursor \<Rightarrow> store \<times> cursor" where
  "createLeftOf n s c = createDir L n s c"

text \<open>
  Modelled from the spec: \<^verbatim>\<open>cursor.deleteSelection()\<close> is not under src/. With no
  selection it does nothing; otherwise the gap closes around the selected run of siblings,
  the run is removed from the tree and the selection is dropped.
\<close>

definition deleteSelection :: "store \<Rightarrow> cursor \<Rightarrow> error + (store \<times> cursor)" where
  "deleteSelection s c =
     (case selection c of
        None \<Rightarrow> Inr (s, c)
      | Some (l, r) \<Rightarrow>
          (case frag_disown l r s of
             Inl e \<Rightarrow> Inl e
           | Inr s' \<Rightarrow> Inr (s', c\<lparr>cL := sibL (heap s l), cR := sibR (heap s r), selection := None\<rparr>)))"

section \<open>Text runs: \<^verbatim>\<open>TextPiece\<close>\<close>

definition appendText :: "ref \<Rightarrow> string \<Rightarrow> store \<Rightarrow> store" where
  "appendText p t s = upd p (textStr_update (\<lambda>x. x @ t)) s"

definition prependText :: "ref \<Rightarrow> string \<Rightarrow> store \<Rightarrow> store" where
  "prependText p t s = upd p (textStr_update (\<lambda>x. t @ x)) s"

definition insTextAtDirEnd :: "ref \<Rightarrow> string \<Rightarrow> direction \<Rightarrow> store \<Rightarrow> store" where
  "insTextAtDirEnd p t d s = (if d = R then appendText p t s else prependText p t s)"

text \<open>
  \<^verbatim>\<open>splitRight(i)\<close>: the new run holds \<^verbatim>\<open>textStr.slice(i)\<close> and is adopted right of this
  one, which keeps \<^verbatim>\<open>textStr.slice(0, i)\<close>. The rendered text node is split at the same
  offset by the DOM's \<^verbatim>\<open>splitText(i)\<close>, which raises an IndexSizeError when \<open>i\<close> is greater
  than the length of its data (the data mirrors \<open>textStr\<close>).
\<close>

definition splitRight :: "ref \<Rightarrow> nat \<Rightarrow> store \<Rightarrow> error + (ref \<times> store)" where
  "splitRight p i s =
     (case parent (heap s p) of
        None \<Rightarrow> Inl TypeError
      | Some par \<Rightarrow>
          (let (n, s1) = new_node TextPiece (drop i (textStr (heap s p))) [] s;
               s2 = adopt n par (Some p) (sibR (heap s1 p)) s1
           in if length (textStr (heap s p)) < i then Inl IndexSizeError
              else Inr (n, upd p (textStr_update (take i)) s2)))"

text \<open>\<^verbatim>\<open>endChar(dir, text)\<close> is \<^verbatim>\<open>text.charAt(dir === L ? 0 : -1 + text.length)\<close>.\<close>

definition endChar :: "direction \<Rightarrow> string \<Rightarrow> string" where
  "endChar d t = (if d = L then take 1 t else (if t = [] then [] else [last t]))"

definition TextPiece_deleteTowards ::
  "ref \<Rightarrow> direction \<Rightarrow> store \<Rightarrow> cursor \<Rightarrow> error + (store \<times> cursor)" where
  "TextPiece_deleteTowards p d s c =
     (let t = textStr (heap s p) in
      if 1 < length t then
        (if d = R
         then Inr (upd p (textStr_update (drop 1)) s, aria_queue (Queued [hd t]) c)
         else Inr (upd p (textStr_update butlast) s, aria_queue (Queued [last t]) c))
      else
        (case remove_node p s of
           Inl e \<Rightarrow> Inl e
         | Inr s' \<Rightarrow>
             Inr (s', aria_queue (Queued (textStr (heap s' p)))
                        (set_cdir d (sib d (heap s' p)) c))))"

definition TextPiece_moveTowards ::
  "ref \<Rightarrow> direction \<Rightarrow> store \<Rightarrow> cursor \<Rightarrow> error + (store \<times> cursor)" where
  "TextPiece_moveTowards p d s c =
     (let ch = endChar (opp d) (textStr (heap s p));
          from_pc = sib (opp d) (heap s p);
          (s1, c1) =
            (case from_pc of
               None \<Rightarrow>
                 (let (n, s0) = new_node TextPiece ch [] s in createDir (opp d) n s0 c)
             | Some f \<Rightarrow>
                 if kind (heap s f) = TextPiece then (insTextAtDirEnd f ch d s, c)
                 else (let (n, s0) = new_node TextPiece ch [] s in createDir (opp d) n s0 c))
      in TextPiece_deleteTowards p d s1 c1)"

text \<open>
  \<^verbatim>\<open>selectTowards(dir, cursor)\<close> of a text run. The moves of the rendered selection are
  not part of the model.
\<close>

definition TextPiece_selectTowards ::
  "ref \<Rightarrow> direction \<Rightarrow> store \<Rightarrow> cursor \<Rightarrow> error + (store \<times> cursor)" where
  "TextPiece_selectTowards p d s c =
     (case anticursor c of
        None \<Rightarrow> Inr (s, c)
      | Some a \<Rightarrow>
          (let ch = endChar (opp d) (textStr (heap s p)) in
           if pdir d a = Some p then
             (let (n, s0) = new_node TextPiece ch [] s;
                  (s1, c1) = createDir d n s0 c;
                  c2 = c1\<lparr>anticursor := Some (set_pdir d (Some n) a)\<rparr>
              in (case insDirOf d n s1 c2 of
                    Inl e \<Rightarrow> Inl e
                  | Inr c3 \<Rightarrow> TextPiece_deleteTowards p d s1 c3))
           else
             (let from_pc = sib (opp d) (heap s p);
                  (s1, c1) =
                    (case from_pc of
                       None \<Rightarrow>
                         (let (n, s0) = new_node TextPiece ch [] s in createDir (opp d) n s0 c)
                     | Some f \<Rightarrow>
                         if kind (heap s f) = TextPiece then (insTextAtDirEnd f ch d s, c)
                         else (let (n, s0) = new_node TextPiece ch [] s
                               in createDir (opp d) n s0 c));
                  c2 = (if length (textStr (heap s1 p)) = 1 \<and> pdir (opp d) a = Some p
                        then c1\<lparr>anticursor := Some (set_pdir (opp d) (sib (opp d) (heap s1 p)) a)\<rparr>
                        else c1)
              in TextPiece_deleteTowards p d s1 c2)))"

section \<open>Text regions: \<^verbatim>\<open>TextBlock\<close>\<close>

definition textContents :: "store \<Rightarrow> ref \<Rightarrow> (error + string) option" where
  "textContents s b = foldChildren s b [] (\<lambda>t child. t @ textStr (heap s child))"

text \<open>
  \<^verbatim>\<open>String.prototype.replace\<close> with a global regular expression that matches single
  characters: every character that matches is replaced, the others are kept.
\<close>

definition replace_chars :: "(char \<Rightarrow> bool) \<Rightarrow> (char \<Rightarrow> string) \<Rightarrow> string \<Rightarrow> string" where
  "replace_chars m r t = concat (map (\<lambda>ch. if m ch then r ch else [ch]) t)"

definition backslash :: char where
  "backslash = CHR 0x5C"

text \<open>
  \<^verbatim>\<open>contents.replace(/\\/g, '\\backslash ').replace(/[{}]/g, '\\$&')\<close>: first every
  backslash, then every brace (\<^verbatim>\<open>$&\<close> is the brace that matched).
\<close>

definition escape_contents :: "string \<Rightarrow> string" where
  "escape_contents t =
     replace_chars (\<lambda>ch. ch = CHR ''{'' \<or> ch = CHR ''}'') (\<lambda>ch. [backslash, ch])
       (replace_chars (\<lambda>ch. ch = backslash) (\<lambda>_. backslash # ''backslash '') t)"

definition latex :: "store \<Rightarrow> ref \<Rightarrow> (error + string) option" where
  "latex s b =
     (case textContents s b of
        None \<Rightarrow> None
      | Some (Inl e) \<Rightarrow> Some (Inl e)
      | Some (Inr contents) \<Rightarrow>
          Some (Inr (if length contents = 0 then []
                     else ctrlSeq (heap s b) @ ''{'' @ escape_contents contents @ ''}'')))"

subsection \<open>Parsing\<close>

text \<open>
  Modelled from the spec: the parser combinators (\<^verbatim>\<open>Parser.string\<close>, \<^verbatim>\<open>Parser.regex\<close>,
  \<^verbatim>\<open>Parser.optWhitespace\<close>, \<^verbatim>\<open>then\<close>, \<^verbatim>\<open>skip\<close>) are not under src/. The spec: the region
  accepts an opening brace, the literal characters up to the next closing brace and the
  closing brace, tolerating leading whitespace. A parser takes the input and fails or
  returns its result and the rest of the input.
\<close>

type_synonym 'a parser = "string \<Rightarrow> error + ('a \<times> string)"

definition p_string :: "string \<Rightarrow> string parser" where
  "p_string str inp =
     (if take (length str) inp = str then Inr (str, drop (length str) inp) else Inl ParseFailure)"

definition is_space :: "char \<Rightarrow> bool" where
  "is_space ch = (ch \<in> {CHR '' '', CHR 0x09, CHR 0x0A, CHR 0x0B, CHR 0x0C, CHR 0x0D, CHR 0xA0})"

definition optWhitespace :: "string parser" where
  "optWhitespace inp = Inr (takeWhile is_space inp, dropWhile is_space inp)"

definition p_regex_not_closing :: "string parser" where
  "p_regex_not_closing inp =
     Inr (takeWhile (\<lambda>ch. ch \<noteq> CHR ''}'') inp, dropWhile (\<lambda>ch. ch \<noteq> CHR ''}'') inp)"

definition p_then :: "'a parser \<Rightarrow> 'b parser \<Rightarrow> 'b parser" where
  "p_then p q inp = (case p inp of Inl e \<Rightarrow> Inl e | Inr (_, rest) \<Rightarrow> q rest)"

definition p_skip :: "'a parser \<Rightarrow> 'b parser \<Rightarrow> 'a parser" where
  "p_skip p q inp =
     (case p inp of
        Inl e \<Rightarrow> Inl e
      | Inr (v, rest) \<Rightarrow> (case q rest of Inl e \<Rightarrow> Inl e | Inr (_, rest') \<Rightarrow> Inr (v, rest')))"

text \<open>
  The result of \<^verbatim>\<open>TextBlock.parser()\<close>: an empty fragment for an empty literal, the region
  itself otherwise, after it has adopted one run holding the literal.
\<close>

datatype parsed = EmptyFragment | ParsedBlock ref

definition TextBlock_parser :: "ref \<Rightarrow> store \<Rightarrow> string \<Rightarrow> error + (parsed \<times> store \<times> string)" where
  "TextBlock_parser b s inp =
     (case p_skip (p_then (p_then optWhitespace (p_string ''{'')) p_regex_not_closing)
             (p_string ''}'') inp of
        Inl e \<Rightarrow> Inl e
      | Inr (t, rest) \<Rightarrow>
          if length t = 0 then Inr (EmptyFragment, s, rest)
          else (let (n, s1) = new_node TextPiece t [] s
                in Inr (ParsedBlock b, adopt n b None None s1, rest)))"

subsection \<open>Writing\<close>

text \<open>
  \<^verbatim>\<open>write(cursor, ch)\<close>. Showing the cursor and the reflow of the ancestors change the
  rendered view only. The left block of a split is a plain \<^verbatim>\<open>new TextBlock()\<close>, whose
  control sequence is \<^verbatim>\<open>\text\<close>.
\<close>

definition dollar_ctrlSeq :: string where
  "dollar_ctrlSeq = [backslash, CHR ''$'']"

definition text_ctrlSeq :: string where
  "text_ctrlSeq = backslash # ''text''"

definition TextBlock_write ::
  "ref \<Rightarrow> string \<Rightarrow> store \<Rightarrow> cursor \<Rightarrow> error + (store \<times> cursor)" where
  "TextBlock_write b ch s c =
     (case deleteSelection s c of
        Inl e \<Rightarrow> Inl e
      | Inr (s0, c0) \<Rightarrow>
          (case
             (if ch \<noteq> ''$'' then
                (case cL c0 of
                   None \<Rightarrow> (let (n, s1) = new_node TextPiece ch [] s0 in Inr (createLeftOf n s1 c0))
                 | Some l \<Rightarrow>
                     if kind (heap s0 l) = TextPiece then Inr (appendText l ch s0, c0)
                     else Inr (s0, c0))
              else if isEmpty s0 b then
                (case insRightOf b s0 c0 of
                   Inl e \<Rightarrow> Inl e
                 | Inr c1 \<Rightarrow>
                     (let (n, s1) = new_node VanillaSymbol [] dollar_ctrlSeq s0
                      in Inr (createLeftOf n s1 c1)))
              else if cR c0 = None then
                (case insRightOf b s0 c0 of Inl e \<Rightarrow> Inl e | Inr c1 \<Rightarrow> Inr (s0, c1))
              else if cL c0 = None then
                (case insLeftOf b s0 c0 of Inl e \<Rightarrow> Inl e | Inr c1 \<Rightarrow> Inr (s0, c1))
              else
                (let (leftBlock, s1) = new_node TextBlock [] text_ctrlSeq s0 in
                 case (case endL (heap s1 b) of
                         None \<Rightarrow> Inr s1
                       | Some leftPc \<Rightarrow>
                           (case disown leftPc s1 of
                              Inl e \<Rightarrow> Inl e
                            | Inr s2 \<Rightarrow> Inr (adopt leftPc leftBlock None None s2))) of
                   Inl e \<Rightarrow> Inl e
                 | Inr s3 \<Rightarrow>
                     (case insLeftOf b s3 c0 of
                        Inl e \<Rightarrow> Inl e
                      | Inr c1 \<Rightarrow> Inr (createLeftOf leftBlock s3 c1)))) of
             Inl e \<Rightarrow> Inl e
           | Inr (s', c') \<Rightarrow> Inr (s', aria_queue (Alerted ch) c')))"

definition TextBlock_writeLatex ::
  "ref \<Rightarrow> string \<Rightarrow> store \<Rightarrow> cursor \<Rightarrow> store \<times> cursor" where
  "TextBlock_writeLatex b ltx s c =
     (case cL c of
        None \<Rightarrow> (let (n, s1) = new_node TextPiece ltx [] s in createLeftOf n s1 c)
      | Some l \<Rightarrow> if kind (heap s l) = TextPiece then (appendText l ltx s, c) else (s, c))"

subsection \<open>Fusing the runs of a region\<close>

text \<open>
  The rendered container of a region is a list of DOM nodes, text nodes and elements; it
  is an input of the operations that read it. Modelled from the spec: the DOM's
  \<^verbatim>\<open>normalize()\<close> is not under src/ (the spec: merging adjacent rendered text primitives
  into one); it also drops the text nodes with no data.
\<close>

datatype dom_node = DomText string | DomElement

fun normalize :: "dom_node list \<Rightarrow> dom_node list" where
  "normalize [] = []"
| "normalize (DomElement # ns) = DomElement # normalize ns"
| "normalize (DomText t # ns) =
     (case normalize ns of
        DomText u # ms \<Rightarrow> DomText (t @ u) # ms
      | ms \<Rightarrow> if t = [] then ms else DomText t # ms)"

text \<open>
  \<^verbatim>\<open>self.children().disown()\<close>: the fragment of all the children; with no child there is
  nothing to disown.
\<close>

definition children_disown :: "ref \<Rightarrow> store \<Rightarrow> error + store" where
  "children_disown b s =
     (case endL (heap s b) of
        None \<Rightarrow> Inr s
      | Some l \<Rightarrow> (case endR (heap s b) of None \<Rightarrow> Inr s | Some r \<Rightarrow> frag_disown l r s))"

text \<open>
  \<^verbatim>\<open>TextBlockFuseChildren(self)\<close>. It returns the container after \<^verbatim>\<open>normalize()\<close>, the
  store and the new run (\<^term>\<open>None\<close> for the early \<^verbatim>\<open>return\<close>). \<^verbatim>\<open>children.oneText()\<close>
  followed by the \<^verbatim>\<open>pray\<close> is the fatal assertion that the container holds one node and
  that it is a text node.
\<close>

definition TextBlockFuseChildren ::
  "ref \<Rightarrow> dom_node list \<Rightarrow> store \<Rightarrow> error + (dom_node list \<times> store \<times> ref option)" where
  "TextBlockFuseChildren b rendered s =
     (let children = normalize rendered in
      if children = [] then Inr (children, s, None)
      else (case children of
              [DomText d] \<Rightarrow>
                (let (textPc, s1) = new_node TextPiece d [] s in
                 case children_disown b s1 of
                   Inl e \<Rightarrow> Inl e
                 | Inr s2 \<Rightarrow> Inr (children, adopt textPc b None None s2, Some textPc))
            | _ \<Rightarrow> Inl PrayFailed))"

subsection \<open>Losing the focus\<close>

text \<open>
  \<^verbatim>\<open>blur(cursor)\<close>, called with a cursor. The inherited \<^verbatim>\<open>MathBlock.prototype.blur\<close>
  changes the rendered view only.
\<close>

definition TextBlock_blur ::
  "ref \<Rightarrow> dom_node list \<Rightarrow> store \<Rightarrow> cursor \<Rightarrow> (error + (dom_node list \<times> store \<times> cursor)) option" where
  "TextBlock_blur b rendered s c =
     (case textContents s b of
        None \<Rightarrow> None
      | Some (Inl e) \<Rightarrow> Some (Inl e)
      | Some (Inr contents) \<Rightarrow>
          if contents = [] then
            (case remove_node b s of
               Inl e \<Rightarrow> Some (Inl e)
             | Inr s' \<Rightarrow>
                 Some (Inr (rendered, s',
                   if cL c = Some b then c\<lparr>cL := sibL (heap s' b)\<rparr>
                   else if cR c = Some b then c\<lparr>cR := sibR (heap s' b)\<rparr>
                   else c)))
          else
            (case TextBlockFuseChildren b rendered s of
               Inl e \<Rightarrow> Some (Inl e)
             | Inr (rendered', s', _) \<Rightarrow> Some (Inr (rendered', s', c))))"

subsection \<open>Seeking\<close>

text \<open>
  \<^verbatim>\<open>seek(clientX, cursor)\<close> reads the rendered view three times; what it reads is an
  input of the model: the number \<open>rects\<close> of client rectangles of the fused text node, the
  estimate \<open>approxPosition\<close> (\<^verbatim>\<open>Math.round((clientX - left) / avgChWidth)\<close>, taken to be a
  number), and \<open>displ_of\<close>, the displacement \<^verbatim>\<open>clientX - ....left\<close> between the target and
  the rendered cursor in a given state, in whole pixels.
\<close>

fun dir_num :: "direction \<Rightarrow> int" where
  "dir_num L = - 1"
| "dir_num R = 1"

definition seek_place ::
  "ref \<Rightarrow> ref \<Rightarrow> nat \<Rightarrow> int \<Rightarrow> store \<Rightarrow> cursor \<Rightarrow> error + (store \<times> cursor)" where
  "seek_place b textPc rects approxPosition s c =
     (if rects = 1 then
        (if approxPosition \<le> 0 then Inr (s, insAtDirEnd L b s c)
         else if int (length (textStr (heap s textPc))) \<le> approxPosition
         then Inr (s, insAtDirEnd R b s c)
         else (case splitRight textPc (nat approxPosition) s of
                 Inl e \<Rightarrow> Inl e
               | Inr (n, s') \<Rightarrow>
                   (case insLeftOf n s' c of Inl e \<Rightarrow> Inl e | Inr c' \<Rightarrow> Inr (s', c'))))
      else Inr (s, insAtDirEnd L b s c))"

text \<open>
  The children of a region are text runs, so the \<^verbatim>\<open>moveTowards\<close> that the loop calls on
  a neighbour of the cursor is the one of \<^verbatim>\<open>TextPiece\<close>; the call on a node of another kind
  is not part of the model.
\<close>

definition cursor_moveTowards ::
  "direction \<Rightarrow> store \<Rightarrow> cursor \<Rightarrow> error + (store \<times> cursor)" where
  "cursor_moveTowards d s c =
     (case cdir d c of
        None \<Rightarrow> Inl TypeError
      | Some p \<Rightarrow>
          if kind (heap s p) = TextPiece then TextPiece_moveTowards p d s c else Inl TypeError)"

partial_function (option) seek_loop ::
  "(store \<Rightarrow> cursor \<Rightarrow> int) \<Rightarrow> direction \<Rightarrow> int \<Rightarrow> int \<Rightarrow> store \<Rightarrow> cursor \<Rightarrow>
     (error + (int \<times> int \<times> store \<times> cursor)) option" where
  "seek_loop displ_of d displ prevDispl s c =
     (if cdir d c \<noteq> None \<and> 0 < displ * prevDispl then
        (case cursor_moveTowards d s c of
           Inl e \<Rightarrow> Some (Inl e)
         | Inr (s', c') \<Rightarrow> seek_loop displ_of d (displ_of s' c') displ s' c')
      else Some (Inr (displ, prevDispl, s, c)))"

text \<open>
  The offset that the source computes for the cursor:
  \<^verbatim>\<open>cursorL && (cursorL as TextPiece).textStr.length\<close>, which is \<^verbatim>\<open>0\<close> with no left
  neighbour.
\<close>

definition cursorPosition :: "store \<Rightarrow> cursor \<Rightarrow> error + nat" where
  "cursorPosition s c =
     (case cL c of
        None \<Rightarrow> Inr 0
      | Some l \<Rightarrow>
          if kind (heap s l) = TextPiece then Inr (length (textStr (heap s l)))
          else Inl TypeError)"

definition split_cursorR :: "nat \<Rightarrow> store \<Rightarrow> cursor \<Rightarrow> error + (ref \<times> store \<times> cursor)" where
  "split_cursorR i s c =
     (case cR c of
        None \<Rightarrow> Inl TypeError
      | Some r \<Rightarrow>
          if kind (heap s r) = TextPiece then
            (case splitRight r i s of Inl e \<Rightarrow> Inl e | Inr (n, s') \<Rightarrow> Inr (n, s', c))
          else Inl TypeError)"

text \<open>
  The end of \<^verbatim>\<open>seek\<close> (from \<^verbatim>\<open>if (!cursor.anticursor)\<close> on). A region that never cached
  an offset has \<^verbatim>\<open>anticursorPosition\<close> undefined: the comparisons are false and the
  difference is \<^verbatim>\<open>NaN\<close>, which \<^verbatim>\<open>slice\<close> and \<^verbatim>\<open>splitText\<close> read as \<^verbatim>\<open>0\<close>.
\<close>

definition seek_anticursor :: "ref \<Rightarrow> store \<Rightarrow> cursor \<Rightarrow> error + (store \<times> cursor)" where
  "seek_anticursor b s c =
     (case anticursor c of
        None \<Rightarrow>
          (case cursorPosition s c of
             Inl e \<Rightarrow> Inl e
           | Inr k \<Rightarrow> Inr (upd b (anticursorPosition_update (\<lambda>_. Some k)) s, c))
      | Some a \<Rightarrow>
          if pparent a = b then
            (case cursorPosition s c of
               Inl e \<Rightarrow> Inl e
             | Inr k \<Rightarrow>
                 if anticursorPosition (heap s b) = Some k then
                   Inr (s, c\<lparr>anticursor := Some \<lparr>pparent = cparent c, pL = cL c, pR = cR c\<rparr>\<rparr>)
                 else
                   (case (case anticursorPosition (heap s b) of
                            None \<Rightarrow> split_cursorR 0 s c
                          | Some a_pos \<Rightarrow>
                              if a_pos < k then
                                (case cL c of
                                   None \<Rightarrow> Inl TypeError
                                 | Some l \<Rightarrow>
                                     (case splitRight l a_pos s of
                                        Inl e \<Rightarrow> Inl e
                                      | Inr (n, s') \<Rightarrow> Inr (n, s', c\<lparr>cL := Some n\<rparr>)))
                              else split_cursorR (a_pos - k) s c) of
                      Inl e \<Rightarrow> Inl e
                    | Inr (newTextPc, s', c') \<Rightarrow>
                        Inr (s', c'\<lparr>anticursor :=
                               Some \<lparr>pparent = b, pL = sibL (heap s' newTextPc),
                                     pR = Some newTextPc\<rparr>\<rparr>)))
          else Inr (s, c))"

definition TextBlock_seek ::
  "ref \<Rightarrow> dom_node list \<Rightarrow> nat \<Rightarrow> int \<Rightarrow> (store \<Rightarrow> cursor \<Rightarrow> int) \<Rightarrow> store \<Rightarrow> cursor \<Rightarrow>
     (error + (store \<times> cursor)) option" where
  "TextBlock_seek b rendered rects approxPosition displ_of s c =
     (case TextBlockFuseChildren b rendered s of
        Inl e \<Rightarrow> Some (Inl e)
      | Inr (_, s1, None) \<Rightarrow> Some (Inr (s1, c))
      | Inr (_, s1, Some textPc) \<Rightarrow>
          (case seek_place b textPc rects approxPosition s1 c of
             Inl e \<Rightarrow> Some (Inl e)
           | Inr (s2, c2) \<Rightarrow>
               (let displ = displ_of s2 c2;
                    d = (if displ < 0 then L else R)
                in case seek_loop displ_of d displ (dir_num d) s2 c2 of
                     None \<Rightarrow> None
                   | Some (Inl e) \<Rightarrow> Some (Inl e)
                   | Some (Inr (displ', prevDispl, s3, c3)) \<Rightarrow>
                       (case (if dir_num d * displ' < - dir_num d * prevDispl
                              then cursor_moveTowards (opp d) s3 c3 else Inr (s3, c3)) of
                          Inl e \<Rightarrow> Some (Inl e)
                        | Inr (s4, c4) \<Rightarrow> Some (seek_anticursor b s4 c4)))))"

section \<open>The math command of a text field: \<^verbatim>\<open>RootMathCommand\<close>\<close>

text \<open>
  \<^verbatim>\<open>isEmpty()\<close> of a math command: every child block is empty.
\<close>

definition MathCommand_isEmpty :: "store \<Rightarrow> ref \<Rightarrow> (error + bool) option" where
  "MathCommand_isEmpty s cmd = foldChildren s cmd True (\<lambda>e child. e \<and> isEmpty s child)"

text \<open>
  Modelled from the spec: \<^verbatim>\<open>MathCommand.prototype.deleteTowards(dir, cursor)\<close> is not under
  src/. The spec describes it where the text region borrows it: the node is removed only if
  it is empty, and then the cursor skips over it: its \<open>dir\<close> pointer is linked to the former
  \<open>dir\<close> neighbour of the node, as for a text run. A node that is not empty is entered in
  direction \<open>dir\<close>, which asserts that \<open>dir\<close> is a direction. The override of \<^verbatim>\<open>write\<close> below
  passes \<^verbatim>\<open>undefined!\<close> for \<open>dir\<close> (here \<^term>\<open>None\<close>): no pointer of the cursor is the
  \<^verbatim>\<open>undefined\<close> one.
\<close>

definition MathCommand_deleteTowards ::
  "direction option \<Rightarrow> ref \<Rightarrow> store \<Rightarrow> cursor \<Rightarrow> (error + (store \<times> cursor)) option" where
  "MathCommand_deleteTowards d cmd s c =
     (case MathCommand_isEmpty s cmd of
        None \<Rightarrow> None
      | Some (Inl e) \<Rightarrow> Some (Inl e)
      | Some (Inr True) \<Rightarrow>
          (case remove_node cmd s of
             Inl e \<Rightarrow> Some (Inl e)
           | Inr s' \<Rightarrow>
               Some (Inr (s', case d of
                                None \<Rightarrow> c
                              | Some dd \<Rightarrow> set_cdir dd (sib dd (heap s' cmd)) c)))
      | Some (Inr False) \<Rightarrow>
          (case d of
             None \<Rightarrow> Some (Inl PrayFailed)
           | Some dd \<Rightarrow>
               (case getEnd (opp dd) (heap s cmd) of
                  None \<Rightarrow> Some (Inl TypeError)
                | Some blk \<Rightarrow> Some (Inr (s, insAtDirEnd (opp dd) blk s c)))))"

text \<open>
  The \<^verbatim>\<open>write\<close> that \<^verbatim>\<open>RootMathCommand.createBlocks\<close> gives to the inner block. The
  ordinary \<^verbatim>\<open>MathBlock.prototype.write\<close> is not under src/; it is the parameter
  \<open>mathBlockWrite\<close>.
\<close>

definition RootMathCommand_block_write ::
  "(ref \<Rightarrow> string \<Rightarrow> store \<Rightarrow> cursor \<Rightarrow> (error + (store \<times> cursor)) option) \<Rightarrow>
   ref \<Rightarrow> string \<Rightarrow> store \<Rightarrow> cursor \<Rightarrow> (error + (store \<times> cursor)) option" where
  "RootMathCommand_block_write mathBlockWrite blk ch s c =
     (if ch \<noteq> ''$'' then mathBlockWrite blk ch s c
      else if isEmpty s blk then
        (case parent (heap s blk) of
           None \<Rightarrow> Some (Inl TypeError)
         | Some cmd \<Rightarrow>
             (case insRightOf cmd s c of
                Inl e \<Rightarrow> Some (Inl e)
              | Inr c1 \<Rightarrow>
                  (case MathCommand_deleteTowards None cmd s c1 of
                     None \<Rightarrow> None
                   | Some (Inl e) \<Rightarrow> Some (Inl e)
                   | Some (Inr (s2, c2)) \<Rightarrow>
                       (let (n, s3) = new_node VanillaSymbol [] dollar_ctrlSeq s2
                        in Some (Inr (createLeftOf n s3 c2))))))
      else if cR c = None then
        (case parent (heap s blk) of
           None \<Rightarrow> Some (Inl TypeError)
         | Some cmd \<Rightarrow>
             (case insRightOf cmd s c of Inl e \<Rightarrow> Some (Inl e) | Inr c1 \<Rightarrow> Some (Inr (s, c1))))
      else if cL c = None then
        (case parent (heap s blk) of
           None \<Rightarrow> Some (Inl TypeError)
         | Some cmd \<Rightarrow>
             (case insLeftOf cmd s c of Inl e \<Rightarrow> Some (Inl e) | Inr c1 \<Rightarrow> Some (Inr (s, c1))))
      else mathBlockWrite blk ch s c)"

section \<open>Well-linked trees\<close>

text \<open>
  The claims speak of the children of a block as a sequence and of the text of a region.
  \<open>block_children s p xs\<close> says that in the store \<open>s\<close> the children of \<open>p\<close> are exactly the
  nodes \<open>xs\<close>, from left to right: the ends of \<open>p\<close> are the first and the last of them and
  each of them points to \<open>p\<close> and to its two neighbours. All of them are allocated.
\<close>

fun first_or :: "'a option \<Rightarrow> 'a list \<Rightarrow> 'a option" where
  "first_or d [] = d"
| "first_or d (x # xs) = Some x"

fun last_or :: "'a option \<Rightarrow> 'a list \<Rightarrow> 'a option" where
  "last_or d [] = d"
| "last_or d (x # xs) = last_or (Some x) xs"

fun seg :: "store \<Rightarrow> ref \<Rightarrow> ref option \<Rightarrow> ref list \<Rightarrow> ref option \<Rightarrow> bool" where
  "seg s p prev [] nxt = True"
| "seg s p prev (x # xs) nxt =
     (parent (heap s x) = Some p \<and> sibL (heap s x) = prev \<and>
      sibR (heap s x) = first_or nxt xs \<and> seg s p (Some x) xs nxt)"

definition block_children :: "store \<Rightarrow> ref \<Rightarrow> ref list \<Rightarrow> bool" where
  "block_children s p xs =
     (distinct xs \<and> p \<notin> set xs \<and> p < fresh s \<and> list_all (\<lambda>x. x < fresh s) xs \<and>
      endL (heap s p) = first_or None xs \<and> endR (heap s p) = last_or None xs \<and>
      seg s p None xs None)"

text \<open>
  The cursor is in the block \<open>b\<close>, in the gap between the children \<open>xs\<close> on its left and
  the children \<open>ys\<close> on its right.
\<close>

definition cursor_at :: "store \<Rightarrow> ref \<Rightarrow> cursor \<Rightarrow> ref list \<Rightarrow> ref list \<Rightarrow> bool" where
  "cursor_at s b c xs ys =
     (block_children s b (xs @ ys) \<and> cparent c = b \<and>
      cL c = last_or None xs \<and> cR c = first_or None ys)"

text \<open>The text of a sequence of runs, and the runs with no character.\<close>

definition texts :: "store \<Rightarrow> ref list \<Rightarrow> string" where
  "texts s xs = concat (map (\<lambda>x. textStr (heap s x)) xs)"

definition runs_nonempty :: "store \<Rightarrow> ref list \<Rightarrow> bool" where
  "runs_nonempty s xs = list_all (\<lambda>x. kind (heap s x) = TextPiece \<and> textStr (heap s x) \<noteq> []) xs"

text \<open>
  During \<^verbatim>\<open>seek\<close> the region holds no other runs than the neighbours of the cursor:
  \<open>two_runs\<close>. The offset of the cursor in such a region is the length of the text of its
  left neighbour, and the text of the region is the text of the two neighbours.
\<close>

fun opt_list :: "'a option \<Rightarrow> 'a list" where
  "opt_list None = []"
| "opt_list (Some x) = [x]"

definition two_runs :: "store \<Rightarrow> ref \<Rightarrow> cursor \<Rightarrow> bool" where
  "two_runs s b c =
     (cursor_at s b c (opt_list (cL c)) (opt_list (cR c)) \<and>
      list_all (\<lambda>x. kind (heap s x) = TextPiece) (opt_list (cL c) @ opt_list (cR c)))"

definition cursor_offset :: "store \<Rightarrow> cursor \<Rightarrow> nat" where
  "cursor_offset s c = length (texts s (opt_list (cL c)))"

definition region_text :: "store \<Rightarrow> cursor \<Rightarrow> string" where
  "region_text s c = texts s (opt_list (cL c) @ opt_list (cR c))"

section \<open>Example trees\<close>

text \<open>
  A root block \<open>0\<close> that holds the region \<open>1\<close>, whose runs \<open>2\<close>, \<open>3\<close> and \<open>4\<close> hold
  \<open>h\<close>, \<open>ell\<close> and \<open>o\<close>.
\<close>

definition ex_node :: "node_kind \<Rightarrow> ref option \<Rightarrow> ref option \<Rightarrow> ref option \<Rightarrow> ref option \<Rightarrow> ref option \<Rightarrow> string \<Rightarrow> node" where
  "ex_node k par l r el er t =
     \<lparr>kind = k, parent = par, sibL = l, sibR = r, endL = el, endR = er, textStr = t,
      ctrlSeq = (if k = TextBlock then text_ctrlSeq else []), anticursorPosition = None\<rparr>"

definition ex_store3 :: store where
  "ex_store3 =
     \<lparr>heap = (\<lambda>_. ex_node MathBlock None None None None None [])
        (0 := ex_node MathBlock None None None (Some 1) (Some 1) [],
         1 := ex_node TextBlock (Some 0) None None (Some 2) (Some 4) [],
         2 := ex_node TextPiece (Some 1) None (Some 3) None None ''h'',
         3 := ex_node TextPiece (Some 1) (Some 2) (Some 4) None None ''ell'',
         4 := ex_node TextPiece (Some 1) (Some 3) None None None ''o''),
      fresh = 5\<rparr>"

definition ex_cursor :: "ref \<Rightarrow> ref option \<Rightarrow> ref option \<Rightarrow> cursor" where
  "ex_cursor p l r = \<lparr>cparent = p, cL = l, cR = r, anticursor = None, selection = None, aria = []\<rparr>"

text \<open>The root block \<open>0\<close> with an empty region \<open>1\<close>.\<close>

definition ex_store_empty :: store where
  "ex_store_empty =
     \<lparr>heap = (\<lambda>_. ex_node MathBlock None None None None None [])
        (0 := ex_node MathBlock None None None (Some 1) (Some 1) [],
         1 := ex_node TextBlock (Some 0) None None None None []),
      fresh = 2\<rparr>"

text \<open>The region \<open>1\<close> with one run that holds a backslash and two braces.\<close>

definition ex_store_braces :: store where
  "ex_store_braces =
     \<lparr>heap = (\<lambda>_. ex_node MathBlock None None None None None [])
        (0 := ex_node MathBlock None None None (Some 1) (Some 1) [],
         1 := ex_node TextBlock (Some 0) None None (Some 2) (Some 2) [],
         2 := ex_node TextPiece (Some 1) None None None None [CHR ''a'', CHR 0x5C, CHR ''{'', CHR ''b'', CHR ''}'']),
      fresh = 3\<rparr>"

text \<open>
  A drag that started at offset \<open>1\<close> of the region \<open>1\<close>: the region has cached the offset,
  and the cursor carries the anticursor. The rendered cursor is reported at the target
  (\<open>ex_displ\<close>), so that \<^verbatim>\<open>seek\<close> does not refine its estimate.
\<close>

definition ex_displ :: "store \<Rightarrow> cursor \<Rightarrow> int" where
  "ex_displ s c = 0"

definition ex_store3_drag :: store where
  "ex_store3_drag = upd 1 (anticursorPosition_update (\<lambda>_. Some 1)) ex_store3"

definition ex_cursor_drag :: cursor where
  "ex_cursor_drag =
     \<lparr>cparent = 1, cL = Some 2, cR = Some 3,
      anticursor = Some \<lparr>pparent = 1, pL = Some 2, pR = Some 3\<rparr>, selection = None, aria = []\<rparr>"

text \<open>
  A root block \<open>0\<close> of a text field that holds the math command \<open>1\<close>, whose inner block \<open>2\<close>
  is empty: the tree after a dollar sign has been typed into the empty field.
\<close>

definition ex_store_math :: store where
  "ex_store_math =
     \<lparr>heap = (\<lambda>_. ex_node MathBlock None None None None None [])
        (0 := ex_node MathBlock None None None (Some 1) (Some 1) [],
         1 := (ex_node RootMathCommand (Some 0) None None (Some 2) (Some 2) [])\<lparr>ctrlSeq := ''$''\<rparr>,
         2 := ex_node MathBlock (Some 1) None None None None []),
      fresh = 3\<rparr>"

section \<open>Properties of the tree operations\<close>

subsection \<open>Lists of children\<close>

lemma first_or_append [simp]: "first_or d (xs @ ys) = first_or (first_or d ys) xs"
  by (cases xs) auto

lemma last_or_append [simp]: "last_or d (xs @ ys) = last_or (last_or d xs) ys"
  by (induction xs arbitrary: d) auto

lemma last_or_last: "xs \<noteq> [] \<Longrightarrow> last_or d xs = Some (last xs)"
  by (induction xs arbitrary: d) auto

lemma first_or_hd: "xs \<noteq> [] \<Longrightarrow> first_or d xs = Some (hd xs)"
  by (cases xs) auto

lemma last_or_Some [simp]: "last_or (Some l) xs \<noteq> None"
  by (induction xs arbitrary: l) auto

lemma heap_upd [simp]: "heap (upd x f s) y = (if y = x then f (heap s x) else heap s y)"
  by (simp add: upd_def)

lemma fresh_upd [simp]: "fresh (upd x f s) = fresh s"
  by (simp add: upd_def)

lemma seg_append:
  "seg s p prev (xs @ ys) nxt =
     (seg s p prev xs (first_or nxt ys) \<and> seg s p (last_or prev xs) ys nxt)"
  by (induction xs arbitrary: prev) auto

lemma seg_links_cong:
  "(\<And>x. x \<in> set xs \<Longrightarrow> parent (heap s' x) = parent (heap s x) \<and>
      sibL (heap s' x) = sibL (heap s x) \<and> sibR (heap s' x) = sibR (heap s x))
   \<Longrightarrow> seg s' p prev xs nxt = seg s p prev xs nxt"
  by (induction xs arbitrary: prev) auto

lemma seg_upd_notin [simp]:
  "x \<notin> set xs \<Longrightarrow> seg (upd x f s) p prev xs nxt = seg s p prev xs nxt"
  by (rule seg_links_cong) auto

lemma seg_last_sibR: "seg s p prev xs nxt \<Longrightarrow> xs \<noteq> [] \<Longrightarrow> sibR (heap s (last xs)) = nxt"
  by (induction xs arbitrary: prev) auto

lemma seg_parent: "seg s p prev xs nxt \<Longrightarrow> x \<in> set xs \<Longrightarrow> parent (heap s x) = Some p"
  by (induction xs arbitrary: prev) auto

subsection \<open>Traversal\<close>

lemma foldNodes_loop_seg:
  "seg s p prev ys None \<Longrightarrow>
   foldNodes_loop s f (first_or None ys) None acc = Some (Inr (foldl f acc ys))"
proof (induction ys arbitrary: prev acc)
  case Nil
  then show ?case by (simp add: foldNodes_loop.simps)
next
  case (Cons y ys)
  then show ?case
    by (subst foldNodes_loop.simps) auto
qed

lemma foldChildren_block:
  assumes b: "block_children s p xs"
  shows "foldChildren s p acc f = Some (Inr (foldl f acc xs))"
proof (cases "xs = []")
  case True
  with b show ?thesis by (simp add: block_children_def foldChildren_def)
next
  case False
  have "sibR (heap s (last xs)) = None"
    using seg_last_sibR[of s p None xs None] b False by (simp add: block_children_def)
  moreover have "foldNodes_loop s f (Some (hd xs)) None acc = Some (Inr (foldl f acc xs))"
    using b False foldNodes_loop_seg[of s p None xs f acc]
    by (simp add: block_children_def first_or_hd)
  ultimately show ?thesis
    using b False by (simp add: block_children_def foldChildren_def first_or_hd last_or_last)
qed

lemma foldl_texts: "foldl (\<lambda>t child. t @ textStr (heap s child)) a xs = a @ texts s xs"
  by (induction xs arbitrary: a) (auto simp: texts_def)

lemma textContents_block:
  "block_children s p xs \<Longrightarrow> textContents s p = Some (Inr (texts s xs))"
  by (simp add: textContents_def foldChildren_block foldl_texts)

lemma texts_append [simp]: "texts s (xs @ ys) = texts s xs @ texts s ys"
  by (simp add: texts_def)

lemma texts_Nil [simp]: "texts s [] = []"
  by (simp add: texts_def)

lemma texts_Cons [simp]: "texts s (x # xs) = textStr (heap s x) @ texts s xs"
  by (simp add: texts_def)

lemma texts_cong:
  "(\<And>x. x \<in> set xs \<Longrightarrow> textStr (heap s' x) = textStr (heap s x)) \<Longrightarrow> texts s' xs = texts s xs"
  by (induction xs) auto

subsection \<open>Allocation, adoption and disowning\<close>

lemma fst_new_node [simp]: "fst (new_node k t cs s) = fresh s"
  by (simp add: new_node_def)

lemma fresh_new_node [simp]: "fresh (snd (new_node k t cs s)) = Suc (fresh s)"
  by (simp add: new_node_def)

lemma heap_new_node:
  "heap (snd (new_node k t cs s)) x =
     (if x = fresh s then
        \<lparr>kind = k, parent = None, sibL = None, sibR = None, endL = None, endR = None,
         textStr = t, ctrlSeq = cs, anticursorPosition = None\<rparr>
      else heap s x)"
  by (simp add: new_node_def)

lemma seg_new_node [simp]:
  "list_all (\<lambda>x. x < fresh s) xs \<Longrightarrow>
   seg (snd (new_node k t cs s)) p prev xs nxt = seg s p prev xs nxt"
  by (rule seg_links_cong) (auto simp: heap_new_node list_all_iff)

lemma block_children_new_node:
  "block_children s p xs \<Longrightarrow> block_children (snd (new_node k t cs s)) p xs"
  by (auto simp: block_children_def heap_new_node list_all_iff)

lemma block_children_fresh:
  "block_children s p xs \<Longrightarrow> fresh s \<notin> set xs \<and> fresh s \<noteq> p"
  by (auto simp: block_children_def list_all_iff)

lemma adopt_children:
  "block_children s p (xs @ ys) \<Longrightarrow> n \<notin> set (xs @ ys) \<Longrightarrow> n \<noteq> p \<Longrightarrow> n < fresh s \<Longrightarrow>
   block_children (adopt n p (last_or None xs) (first_or None ys) s) p (xs @ n # ys)"
  by (cases xs rule: rev_cases; cases ys)
     (auto simp: block_children_def adopt_def seg_append Let_def list_all_iff)

lemma disown_children:
  "block_children s p (xs @ n # ys) \<Longrightarrow>
   \<exists>s'. disown n s = Inr s' \<and> block_children s' p (xs @ ys) \<and> fresh s' = fresh s \<and>
     (\<forall>x. textStr (heap s' x) = textStr (heap s x) \<and> kind (heap s' x) = kind (heap s x) \<and>
          ctrlSeq (heap s' x) = ctrlSeq (heap s x) \<and>
          anticursorPosition (heap s' x) = anticursorPosition (heap s x)) \<and>
     heap s' n = heap s n"
  by (cases xs rule: rev_cases; cases ys)
     (auto simp: block_children_def disown_def frag_disown_def seg_append Let_def list_all_iff)

lemma adopt_data [simp]:
  "textStr (heap (adopt n p l r s) x) = textStr (heap s x)"
  "kind (heap (adopt n p l r s) x) = kind (heap s x)"
  "ctrlSeq (heap (adopt n p l r s) x) = ctrlSeq (heap s x)"
  "anticursorPosition (heap (adopt n p l r s) x) = anticursorPosition (heap s x)"
  "fresh (adopt n p l r s) = fresh s"
  by (auto simp: adopt_def Let_def split: option.splits)


lemma block_children_upd_textStr:
  "block_children s b xs \<Longrightarrow> block_children (upd p (textStr_update f) s) b xs"
  by (auto simp: block_children_def list_all_iff intro: seg_links_cong[THEN iffD2])

section \<open>Properties of the operations on text runs\<close>

lemma adopt_new_children:
  assumes "block_children s b (xs @ ys)"
  shows "block_children (adopt (fresh s) b (last_or None xs) (first_or None ys)
            (snd (new_node k t cs s))) b (xs @ fresh s # ys)"
proof -
  have "block_children (snd (new_node k t cs s)) b (xs @ ys)"
    using assms by (rule block_children_new_node)
  moreover have "fresh s \<notin> set (xs @ ys)" "fresh s \<noteq> b"
    using block_children_fresh[OF assms] by auto
  ultimately show ?thesis
    by (intro adopt_children) auto
qed

lemma new_node_data [simp]:
  "textStr (heap (snd (new_node k t cs s)) x) = (if x = fresh s then t else textStr (heap s x))"
  "kind (heap (snd (new_node k t cs s)) x) = (if x = fresh s then k else kind (heap s x))"
  by (simp_all add: heap_new_node)

lemma deleteTowards_children:
  assumes b: "block_children s b (xs @ p # ys)"
  shows "\<exists>s'. TextPiece_deleteTowards p d s c =
            Inr (s', (if 1 < length (textStr (heap s p)) then c
                      else set_cdir d (if d = R then first_or None ys else last_or None xs) c)
                     \<lparr>aria := aria c @
                        [Queued (if 1 < length (textStr (heap s p))
                                 then (if d = R then [hd (textStr (heap s p))]
                                       else [last (textStr (heap s p))])
                                 else textStr (heap s p))]\<rparr>) \<and>
           block_children s' b (xs @ (if 1 < length (textStr (heap s p)) then [p] else []) @ ys) \<and>
           textStr (heap s' p) =
             (if 1 < length (textStr (heap s p))
              then (if d = R then tl (textStr (heap s p)) else butlast (textStr (heap s p)))
              else textStr (heap s p)) \<and>
           (\<forall>x. x \<noteq> p \<longrightarrow> textStr (heap s' x) = textStr (heap s x)) \<and>
           (\<forall>x. kind (heap s' x) = kind (heap s x)) \<and> fresh s' = fresh s"
proof (cases "1 < length (textStr (heap s p))")
  case True
  then show ?thesis
    using b by (cases d) (auto simp: TextPiece_deleteTowards_def aria_queue_def
        block_children_upd_textStr drop_Suc)
next
  case False
  from disown_children[OF b] obtain s' where
    s': "disown p s = Inr s'" "block_children s' b (xs @ ys)" "fresh s' = fresh s"
        "\<forall>x. textStr (heap s' x) = textStr (heap s x) \<and> kind (heap s' x) = kind (heap s x)"
        "heap s' p = heap s p"
    by blast
  have links: "sibL (heap s p) = last_or None xs" "sibR (heap s p) = first_or None ys"
    using b by (auto simp: block_children_def seg_append)
  show ?thesis
    using False s' links
    by (cases d) (auto simp: TextPiece_deleteTowards_def remove_node_def aria_queue_def)
qed

lemma short_string: "\<not> 1 < length (t :: string) \<Longrightarrow> tl t = [] \<and> take 1 t = t \<and> butlast t = []"
  by (cases t) auto

lemma long_string: "1 < length (t :: string) \<Longrightarrow> tl t \<noteq> [] \<and> butlast t \<noteq> []"
  by (cases t) auto

lemma cursor_at_links:
  assumes "cursor_at s b c xs (p # ys)"
  shows "sibL (heap s p) = last_or None xs" "sibR (heap s p) = first_or None ys"
        "parent (heap s p) = Some b"
  using assms by (auto simp: cursor_at_def block_children_def seg_append)

lemma cursor_at_links_L:
  assumes "cursor_at s b c (xs @ [p]) ys"
  shows "sibL (heap s p) = last_or None xs" "sibR (heap s p) = first_or None ys"
        "parent (heap s p) = Some b"
  using assms by (auto simp: cursor_at_def block_children_def seg_append)

lemma moveTowards_R:
  assumes c: "cursor_at s b c xs (p # ys)"
    and k: "\<forall>f. last_or None xs = Some f \<longrightarrow> kind (heap s f) = TextPiece"
  shows "\<exists>s' c' xs' ys'. TextPiece_moveTowards p R s c = Inr (s', c') \<and>
           cursor_at s' b c' xs' ys' \<and>
           xs' = (if xs = [] then [fresh s] else xs) \<and>
           ys' = (if 1 < length (textStr (heap s p)) then p # ys else ys) \<and>
           texts s' xs' = texts s xs @ take 1 (textStr (heap s p)) \<and>
           texts s' ys' = drop 1 (textStr (heap s p)) @ texts s ys \<and>
           (\<forall>x. kind (heap s' x) = (if x = fresh s \<and> xs = [] then TextPiece else kind (heap s x))) \<and>
           (runs_nonempty s (xs @ p # ys) \<longrightarrow> runs_nonempty s' (xs' @ ys')) \<and>
           anticursor c' = anticursor c \<and> selection c' = selection c"
proof (cases xs rule: rev_cases)
  case Nil
  let ?t = "textStr (heap s p)"
  let ?n = "fresh s"
  let ?s1 = "adopt ?n b None (Some p) (snd (new_node TextPiece (take 1 ?t) [] s))"
  let ?c1 = "c\<lparr>cL := Some ?n\<rparr>"
  have b: "block_children s b ([] @ p # ys)" and cb: "cparent c = b"
    and cl: "cL c = None" and cr: "cR c = Some p"
    using c Nil by (auto simp: cursor_at_def)
  have b1: "block_children ?s1 b ([?n] @ p # ys)"
    using adopt_new_children[OF b, of TextPiece "take 1 ?t" "[]"] by simp
  have np: "?n \<noteq> p" "?n \<notin> set ys" "p \<notin> set ys"
    using block_children_fresh[OF b] b by (auto simp: block_children_def)
  have step1: "TextPiece_moveTowards p R s c = TextPiece_deleteTowards p R ?s1 ?c1"
    using cursor_at_links[OF c] Nil cb cl cr
    by (simp add: TextPiece_moveTowards_def endChar_def Let_def split_beta createDir_def)
  have t1: "textStr (heap ?s1 p) = ?t"
    using np by simp
  from deleteTowards_children[OF b1, of R ?c1] obtain s' where
    s': "TextPiece_deleteTowards p R ?s1 ?c1 =
            Inr (s', (if 1 < length ?t then ?c1 else set_cdir R (first_or None ys) ?c1)
                     \<lparr>aria := aria ?c1 @ [Queued (if 1 < length ?t then [hd ?t] else ?t)]\<rparr>)"
        "block_children s' b ([?n] @ (if 1 < length ?t then [p] else []) @ ys)"
        "textStr (heap s' p) = (if 1 < length ?t then tl ?t else ?t)"
        "\<forall>x. x \<noteq> p \<longrightarrow> textStr (heap s' x) = textStr (heap ?s1 x)"
        "\<forall>x. kind (heap s' x) = kind (heap ?s1 x)"
    unfolding t1 by auto
  have tys: "texts s' ys = texts s ys"
    using s'(4) np b by (intro texts_cong) (auto simp: block_children_def)
  have oth: "x \<noteq> p \<Longrightarrow> x \<noteq> ?n \<Longrightarrow> textStr (heap s' x) = textStr (heap s x)" for x
    using s'(4) by simp
  have tq: "textStr (heap s' ?n) = take 1 ?t" "kind (heap s' ?n) = TextPiece"
    and kk: "x \<noteq> ?n \<Longrightarrow> kind (heap s' x) = kind (heap s x)" for x
    using s'(4,5) np by simp_all
  have fr: "\<forall>x\<in>set ys. textStr (heap s' x) = textStr (heap s x) \<and> kind (heap s' x) = kind (heap s x)"
  proof
    fix x assume "x \<in> set ys"
    then have "x \<noteq> p" "x \<noteq> ?n" using np by auto
    then show "textStr (heap s' x) = textStr (heap s x) \<and> kind (heap s' x) = kind (heap s x)"
      using s'(4,5) by simp
  qed
  have rn: "runs_nonempty s (xs @ p # ys) \<longrightarrow>
              runs_nonempty s' ([?n] @ (if 1 < length ?t then [p] else []) @ ys)"
    using fr tq kk[of p] np s'(3) long_string[of ?t]
    by (auto simp: runs_nonempty_def list_all_iff)
  show ?thesis
    using step1 s'(1,2,3,5) rn tq Nil cb cr np tys short_string[of ?t]
    by (auto simp: cursor_at_def drop_Suc)
next
  case (snoc xs0 f)
  let ?t = "textStr (heap s p)"
  let ?s1 = "appendText f (take 1 ?t) s"
  have b: "block_children s b (xs @ p # ys)" and cb: "cparent c = b"
    and cl: "cL c = Some f" and cr: "cR c = Some p"
    using c snoc by (auto simp: cursor_at_def)
  have kf: "kind (heap s f) = TextPiece"
    using k snoc by simp
  have fp: "f \<noteq> p" "f \<notin> set ys" "f \<notin> set xs0" "p \<notin> set xs" "p \<notin> set ys"
    using b snoc by (auto simp: block_children_def)
  have b1: "block_children ?s1 b (xs @ p # ys)"
    unfolding appendText_def using b by (rule block_children_upd_textStr)
  have step1: "TextPiece_moveTowards p R s c = TextPiece_deleteTowards p R ?s1 c"
    using cursor_at_links[OF c] snoc kf
    by (simp add: TextPiece_moveTowards_def endChar_def Let_def insTextAtDirEnd_def)
  have t1: "textStr (heap ?s1 p) = ?t"
    using fp by (simp add: appendText_def)
  from deleteTowards_children[OF b1, of R c] obtain s' where
    s': "TextPiece_deleteTowards p R ?s1 c =
            Inr (s', (if 1 < length ?t then c else set_cdir R (first_or None ys) c)
                     \<lparr>aria := aria c @ [Queued (if 1 < length ?t then [hd ?t] else ?t)]\<rparr>)"
        "block_children s' b (xs @ (if 1 < length ?t then [p] else []) @ ys)"
        "textStr (heap s' p) = (if 1 < length ?t then tl ?t else ?t)"
        "\<forall>x. x \<noteq> p \<longrightarrow> textStr (heap s' x) = textStr (heap ?s1 x)"
        "\<forall>x. kind (heap s' x) = kind (heap ?s1 x)"
    unfolding t1 by auto
  have tys: "texts s' ys = texts s ys" "texts s' xs0 = texts s xs0"
    using s'(4) fp snoc by (auto intro!: texts_cong simp: appendText_def)
  have tf: "textStr (heap s' f) = textStr (heap s f) @ take 1 ?t"
    using s'(4) fp by (simp add: appendText_def)
  have oth: "x \<noteq> p \<Longrightarrow> x \<noteq> f \<Longrightarrow> textStr (heap s' x) = textStr (heap s x)" for x
    using s'(4) by (simp add: appendText_def)
  have kk: "kind (heap s' x) = kind (heap s x)" for x
    using s'(5) by (simp add: appendText_def)
  have fr: "\<forall>x\<in>set xs0 \<union> set ys. textStr (heap s' x) = textStr (heap s x)"
  proof
    fix x assume "x \<in> set xs0 \<union> set ys"
    then have "x \<noteq> p" "x \<noteq> f" using fp snoc by auto
    then show "textStr (heap s' x) = textStr (heap s x)"
      using s'(4) by (simp add: appendText_def)
  qed
  have rn: "runs_nonempty s (xs @ p # ys) \<longrightarrow>
              runs_nonempty s' (xs @ (if 1 < length ?t then [p] else []) @ ys)"
    using fr tf kk snoc s'(3) long_string[of ?t]
    by (auto simp: runs_nonempty_def list_all_iff)
  show ?thesis
    using step1 s'(1,2,3) kk rn snoc cb cl cr tys tf short_string[of ?t]
    by (auto simp: cursor_at_def drop_Suc)
qed


lemma moveTowards_L:
  assumes c: "cursor_at s b c (xs @ [p]) ys"
    and k: "\<forall>f. first_or None ys = Some f \<longrightarrow> kind (heap s f) = TextPiece"
  shows "\<exists>s' c' xs' ys'. TextPiece_moveTowards p L s c = Inr (s', c') \<and>
           cursor_at s' b c' xs' ys' \<and>
           xs' = (if 1 < length (textStr (heap s p)) then xs @ [p] else xs) \<and>
           ys' = (if ys = [] then [fresh s] else ys) \<and>
           texts s' xs' = texts s xs @ butlast (textStr (heap s p)) \<and>
           texts s' ys' = endChar R (textStr (heap s p)) @ texts s ys \<and>
           (\<forall>x. kind (heap s' x) = (if x = fresh s \<and> ys = [] then TextPiece else kind (heap s x))) \<and>
           (runs_nonempty s (xs @ p # ys) \<longrightarrow> runs_nonempty s' (xs' @ ys')) \<and>
           anticursor c' = anticursor c \<and> selection c' = selection c"
proof (cases ys)
  case Nil
  let ?t = "textStr (heap s p)"
  let ?n = "fresh s"
  let ?s1 = "adopt ?n b (Some p) None (snd (new_node TextPiece (endChar R ?t) [] s))"
  let ?c1 = "c\<lparr>cR := Some ?n\<rparr>"
  have b: "block_children s b ((xs @ [p]) @ [])" and cb: "cparent c = b"
    and cl: "cL c = Some p" and cr: "cR c = None"
    using c Nil by (auto simp: cursor_at_def)
  have b1: "block_children ?s1 b (xs @ p # [?n])"
    using adopt_new_children[OF b, of TextPiece "endChar R ?t" "[]"] by simp
  have np: "?n \<noteq> p" "?n \<notin> set xs" "p \<notin> set xs"
    using block_children_fresh[OF b] b by (auto simp: block_children_def)
  have step1: "TextPiece_moveTowards p L s c = TextPiece_deleteTowards p L ?s1 ?c1"
    using cursor_at_links_L[OF c] Nil cb cl cr
    by (simp add: TextPiece_moveTowards_def Let_def split_beta createDir_def)
  have t1: "textStr (heap ?s1 p) = ?t"
    using np by simp
  from deleteTowards_children[OF b1, of L ?c1] obtain s' where
    s': "TextPiece_deleteTowards p L ?s1 ?c1 =
            Inr (s', (if 1 < length ?t then ?c1 else set_cdir L (last_or None xs) ?c1)
                     \<lparr>aria := aria ?c1 @ [Queued (if 1 < length ?t then [last ?t] else ?t)]\<rparr>)"
        "block_children s' b (xs @ (if 1 < length ?t then [p] else []) @ [?n])"
        "textStr (heap s' p) = (if 1 < length ?t then butlast ?t else ?t)"
        "\<forall>x. x \<noteq> p \<longrightarrow> textStr (heap s' x) = textStr (heap ?s1 x)"
        "\<forall>x. kind (heap s' x) = kind (heap ?s1 x)"
    unfolding t1 by auto
  have tys: "texts s' xs = texts s xs"
    using s'(4) np b by (intro texts_cong) (auto simp: block_children_def)
  have oth: "x \<noteq> p \<Longrightarrow> x \<noteq> ?n \<Longrightarrow> textStr (heap s' x) = textStr (heap s x)" for x
    using s'(4) by simp
  have tq: "textStr (heap s' ?n) = endChar R ?t" "kind (heap s' ?n) = TextPiece"
    and kk: "x \<noteq> ?n \<Longrightarrow> kind (heap s' x) = kind (heap s x)" for x
    using s'(4,5) np by simp_all
  have fr: "\<forall>x\<in>set xs. textStr (heap s' x) = textStr (heap s x) \<and> kind (heap s' x) = kind (heap s x)"
  proof
    fix x assume "x \<in> set xs"
    then have "x \<noteq> p" "x \<noteq> ?n" using np by auto
    then show "textStr (heap s' x) = textStr (heap s x) \<and> kind (heap s' x) = kind (heap s x)"
      using s'(4,5) by simp
  qed
  have rn: "runs_nonempty s (xs @ p # ys) \<longrightarrow>
              runs_nonempty s' (xs @ (if 1 < length ?t then [p] else []) @ [?n])"
    using fr tq kk[of p] np s'(3) long_string[of ?t] Nil
    by (auto simp: runs_nonempty_def list_all_iff endChar_def)
  show ?thesis
    using step1 s'(1,2,3,5) rn tq Nil cb cl np tys short_string[of ?t]
    by (auto simp: cursor_at_def)
next
  case (Cons f ys0)
  let ?t = "textStr (heap s p)"
  let ?s1 = "prependText f (endChar R ?t) s"
  have b: "block_children s b (xs @ p # ys)" and cb: "cparent c = b"
    and cl: "cL c = Some p" and cr: "cR c = Some f"
    using c Cons by (auto simp: cursor_at_def)
  have kf: "kind (heap s f) = TextPiece"
    using k Cons by simp
  have fp: "f \<noteq> p" "f \<notin> set xs" "f \<notin> set ys0" "p \<notin> set xs" "p \<notin> set ys"
    using b Cons by (auto simp: block_children_def)
  have b1: "block_children ?s1 b (xs @ p # ys)"
    unfolding prependText_def using b by (rule block_children_upd_textStr)
  have step1: "TextPiece_moveTowards p L s c = TextPiece_deleteTowards p L ?s1 c"
    using cursor_at_links_L[OF c] Cons kf
    by (simp add: TextPiece_moveTowards_def Let_def insTextAtDirEnd_def)
  have t1: "textStr (heap ?s1 p) = ?t"
    using fp by (simp add: prependText_def)
  from deleteTowards_children[OF b1, of L c] obtain s' where
    s': "TextPiece_deleteTowards p L ?s1 c =
            Inr (s', (if 1 < length ?t then c else set_cdir L (last_or None xs) c)
                     \<lparr>aria := aria c @ [Queued (if 1 < length ?t then [last ?t] else ?t)]\<rparr>)"
        "block_children s' b (xs @ (if 1 < length ?t then [p] else []) @ ys)"
        "textStr (heap s' p) = (if 1 < length ?t then butlast ?t else ?t)"
        "\<forall>x. x \<noteq> p \<longrightarrow> textStr (heap s' x) = textStr (heap ?s1 x)"
        "\<forall>x. kind (heap s' x) = kind (heap ?s1 x)"
    unfolding t1 by auto
  have tys: "texts s' ys0 = texts s ys0" "texts s' xs = texts s xs"
    using s'(4) fp Cons by (auto intro!: texts_cong simp: prependText_def)
  have tf: "textStr (heap s' f) = endChar R ?t @ textStr (heap s f)"
    using s'(4) fp by (simp add: prependText_def)
  have oth: "x \<noteq> p \<Longrightarrow> x \<noteq> f \<Longrightarrow> textStr (heap s' x) = textStr (heap s x)" for x
    using s'(4) by (simp add: prependText_def)
  have kk: "kind (heap s' x) = kind (heap s x)" for x
    using s'(5) by (simp add: prependText_def)
  have fr: "\<forall>x\<in>set xs \<union> set ys0. textStr (heap s' x) = textStr (heap s x)"
  proof
    fix x assume "x \<in> set xs \<union> set ys0"
    then have "x \<noteq> p" "x \<noteq> f" using fp Cons by auto
    then show "textStr (heap s' x) = textStr (heap s x)"
      using s'(4) by (simp add: prependText_def)
  qed
  have rn: "runs_nonempty s (xs @ p # ys) \<longrightarrow>
              runs_nonempty s' (xs @ (if 1 < length ?t then [p] else []) @ ys)"
    using fr tf kk Cons s'(3) long_string[of ?t]
    by (auto simp: runs_nonempty_def list_all_iff)
  show ?thesis
    using step1 s'(1,2,3) kk rn Cons cb cl cr tys tf short_string[of ?t]
    by (auto simp: cursor_at_def)
qed

lemma splitRight_children:
  assumes b: "block_children s b (xs @ p # ys)" and i: "i \<le> length (textStr (heap s p))"
  shows "\<exists>s'. splitRight p i s = Inr (fresh s, s') \<and>
           block_children s' b (xs @ p # fresh s # ys) \<and>
           textStr (heap s' p) = take i (textStr (heap s p)) \<and>
           textStr (heap s' (fresh s)) = drop i (textStr (heap s p)) \<and>
           kind (heap s' (fresh s)) = TextPiece \<and>
           sibL (heap s' (fresh s)) = Some p \<and>
           (\<forall>x. x \<noteq> p \<and> x \<noteq> fresh s \<longrightarrow> textStr (heap s' x) = textStr (heap s x)) \<and>
           (\<forall>x. x \<noteq> fresh s \<longrightarrow> kind (heap s' x) = kind (heap s x) \<and>
                anticursorPosition (heap s' x) = anticursorPosition (heap s x)) \<and>
           fresh s' = Suc (fresh s)"
proof -
  let ?t = "textStr (heap s p)"
  let ?s2 = "adopt (fresh s) b (Some p) (first_or None ys) (snd (new_node TextPiece (drop i ?t) [] s))"
  have np: "fresh s \<noteq> p"
    using block_children_fresh[OF b] by auto
  have links: "parent (heap s p) = Some b" "sibR (heap s p) = first_or None ys"
    using b by (auto simp: block_children_def seg_append)
  have b': "block_children s b ((xs @ [p]) @ ys)"
    using b by simp
  have b2: "block_children ?s2 b (xs @ p # fresh s # ys)"
    using adopt_new_children[OF b', of TextPiece "drop i ?t" "[]"] by simp
  have eq: "splitRight p i s = Inr (fresh s, upd p (textStr_update (take i)) ?s2)"
    using links np i by (simp add: splitRight_def split_beta Let_def heap_new_node)
  have sl: "sibL (heap ?s2 (fresh s)) = Some p"
    using b2 by (auto simp: block_children_def seg_append)
  show ?thesis
    using eq block_children_upd_textStr[OF b2, of p "take i"] np sl
    by (auto simp: heap_new_node)
qed

lemma deleteTowards_anticursor:
  "TextPiece_deleteTowards p d s (c\<lparr>anticursor := A\<rparr>) =
     map_sum id (\<lambda>(s', c'). (s', c'\<lparr>anticursor := A\<rparr>)) (TextPiece_deleteTowards p d s c)"
  by (cases d) (auto simp: TextPiece_deleteTowards_def Let_def aria_queue_def split: sum.splits)

lemma createDir_anticursor [simp]: "anticursor (snd (createDir d n s c)) = anticursor c"
  by (cases d) (simp_all add: createDir_def)

lemma selectTowards_as_move:
  assumes a: "anticursor c = Some a" and n: "pdir d a \<noteq> Some p"
  shows "\<exists>A. TextPiece_selectTowards p d s c =
           map_sum id (\<lambda>(s', c'). (s', c'\<lparr>anticursor := A\<rparr>)) (TextPiece_moveTowards p d s c)"
proof -
  have *: "TextPiece_deleteTowards p d s1 (if B then c1\<lparr>anticursor := A1\<rparr> else c1) =
        map_sum id (\<lambda>(s', c'). (s', c'\<lparr>anticursor := (if B then A1 else anticursor c1)\<rparr>))
          (TextPiece_deleteTowards p d s1 c1)" for s1 c1 B A1
    using deleteTowards_anticursor[where p=p and d=d and s=s1 and c=c1 and A="if B then A1 else anticursor c1"]
    by (cases B) simp_all
  show ?thesis
    using a n unfolding TextPiece_selectTowards_def TextPiece_moveTowards_def
    by (simp add: Let_def split_beta * del: map_sum.simps split: option.splits) blast
qed


lemma take1_tl: "take (Suc 0) t @ tl t = t"
  by (cases t) auto

lemma short_last: "\<not> 1 < length t \<Longrightarrow> t \<noteq> [] \<Longrightarrow> [last t] = t"
  by (cases t) auto

lemma runs_nonempty_deleteTowards:
  assumes b: "block_children s b (xs @ p # ys)" and r: "runs_nonempty s (xs @ p # ys)"
  shows "\<exists>s' c'. TextPiece_deleteTowards p d s c = Inr (s', c') \<and>
           block_children s' b (xs @ (if 1 < length (textStr (heap s p)) then [p] else []) @ ys) \<and>
           runs_nonempty s' (xs @ (if 1 < length (textStr (heap s p)) then [p] else []) @ ys) \<and>
           (\<forall>x. x \<noteq> p \<longrightarrow> textStr (heap s' x) = textStr (heap s x)) \<and>
           textStr (heap s' p) =
             (if 1 < length (textStr (heap s p))
              then (if d = R then tl (textStr (heap s p)) else butlast (textStr (heap s p)))
              else textStr (heap s p))"
proof -
  let ?t = "textStr (heap s p)"
  from deleteTowards_children[OF b, of d c] obtain s' c' where
    s': "TextPiece_deleteTowards p d s c = Inr (s', c')"
        "block_children s' b (xs @ (if 1 < length ?t then [p] else []) @ ys)"
        "textStr (heap s' p) =
           (if 1 < length ?t then (if d = R then tl ?t else butlast ?t) else ?t)"
        "\<forall>x. x \<noteq> p \<longrightarrow> textStr (heap s' x) = textStr (heap s x)"
        "\<forall>x. kind (heap s' x) = kind (heap s x)"
    by blast
  have pd: "p \<notin> set xs" "p \<notin> set ys"
    using b by (auto simp: block_children_def)
  have fr: "\<forall>x\<in>set xs \<union> set ys. textStr (heap s' x) = textStr (heap s x)"
  proof
    fix x assume "x \<in> set xs \<union> set ys"
    then have "x \<noteq> p" using pd by auto
    then show "textStr (heap s' x) = textStr (heap s x)" using s'(4) by simp
  qed
  have "runs_nonempty s' (xs @ (if 1 < length ?t then [p] else []) @ ys)"
    using r fr s'(3,5) long_string[of ?t]
    by (cases d) (auto simp: runs_nonempty_def list_all_iff)
  then show ?thesis
    using s' by auto
qed

lemma selectTowards_first_R:
  assumes c: "cursor_at s b c xs (p # ys)" and a: "anticursor c = Some a" and pa: "pR a = Some p"
    and r: "runs_nonempty s (xs @ p # ys)"
  shows "\<exists>s' c' zs'. TextPiece_selectTowards p R s c = Inr (s', c') \<and>
           block_children s' b zs' \<and> runs_nonempty s' zs' \<and>
           texts s' zs' = texts s (xs @ p # ys)"
proof -
  let ?t = "textStr (heap s p)"
  let ?n = "fresh s"
  let ?s1 = "adopt ?n b (last_or None xs) (Some p) (snd (new_node TextPiece (take 1 ?t) [] s))"
  have b: "block_children s b (xs @ p # ys)" and cb: "cparent c = b"
    and cl: "cL c = last_or None xs" and cr: "cR c = Some p"
    using c by (auto simp: cursor_at_def)
  have b1: "block_children ?s1 b ((xs @ [?n]) @ p # ys)"
    using adopt_new_children[OF b, of TextPiece "take 1 ?t" "[]"] by simp
  have np: "?n \<noteq> p" "?n \<notin> set xs" "?n \<notin> set ys"
    using block_children_fresh[OF b] by auto
  have pn: "parent (heap ?s1 ?n) = Some b"
    using b1 by (auto simp: block_children_def seg_append)
  have tne: "?t \<noteq> []"
    using r by (simp add: runs_nonempty_def)
  have r1: "runs_nonempty ?s1 ((xs @ [?n]) @ p # ys)"
    using r np tne by (auto simp: runs_nonempty_def list_all_iff)
  obtain c3 where step: "TextPiece_selectTowards p R s c = TextPiece_deleteTowards p R ?s1 c3"
    using a pa cb cl cr pn
    by (simp add: TextPiece_selectTowards_def endChar_def Let_def split_beta createDir_def
        insDirOf_def)
  have t1: "textStr (heap ?s1 p) = ?t" "texts ?s1 xs = texts s xs" "texts ?s1 ys = texts s ys"
    "textStr (heap ?s1 ?n) = take 1 ?t"
    using np by (auto intro!: texts_cong)
  from runs_nonempty_deleteTowards[OF b1 r1, of R c3] obtain s' c' where
    s': "TextPiece_deleteTowards p R ?s1 c3 = Inr (s', c')"
        "block_children s' b ((xs @ [?n]) @ (if 1 < length ?t then [p] else []) @ ys)"
        "runs_nonempty s' ((xs @ [?n]) @ (if 1 < length ?t then [p] else []) @ ys)"
        "\<forall>x. x \<noteq> p \<longrightarrow> textStr (heap s' x) = textStr (heap ?s1 x)"
        "textStr (heap s' p) = (if 1 < length ?t then tl ?t else ?t)"
    unfolding t1 by auto
  have pd: "p \<notin> set xs" "p \<notin> set ys"
    using b by (auto simp: block_children_def)
  have "texts s' xs = texts s xs" "texts s' ys = texts s ys"
    using s'(4) pd np by (auto intro!: texts_cong)
  moreover have "textStr (heap s' ?n) = take 1 ?t"
    using s'(4) np by simp
  ultimately
  have "texts s' ((xs @ [?n]) @ (if 1 < length ?t then [p] else []) @ ys) = texts s (xs @ p # ys)"
    using s'(5) short_string[of ?t] take1_tl[of ?t] by auto
  then show ?thesis
    using step s' by metis
qed

lemma selectTowards_first_L:
  assumes c: "cursor_at s b c (xs @ [p]) ys" and a: "anticursor c = Some a" and pa: "pL a = Some p"
    and r: "runs_nonempty s (xs @ p # ys)"
  shows "\<exists>s' c' zs'. TextPiece_selectTowards p L s c = Inr (s', c') \<and>
           block_children s' b zs' \<and> runs_nonempty s' zs' \<and>
           texts s' zs' = texts s (xs @ p # ys)"
proof -
  let ?t = "textStr (heap s p)"
  let ?n = "fresh s"
  let ?s1 = "adopt ?n b (Some p) (first_or None ys) (snd (new_node TextPiece (endChar R ?t) [] s))"
  have b: "block_children s b ((xs @ [p]) @ ys)" and cb: "cparent c = b"
    and cl: "cL c = Some p" and cr: "cR c = first_or None ys"
    using c by (auto simp: cursor_at_def)
  have b1: "block_children ?s1 b (xs @ p # (?n # ys))"
    using adopt_new_children[OF b, of TextPiece "endChar R ?t" "[]"] by simp
  have np: "?n \<noteq> p" "?n \<notin> set xs" "?n \<notin> set ys"
    using block_children_fresh[OF b] by auto
  have pn: "parent (heap ?s1 ?n) = Some b"
    using b1 by (auto simp: block_children_def seg_append)
  have tne: "?t \<noteq> []"
    using r by (simp add: runs_nonempty_def)
  have r1: "runs_nonempty ?s1 (xs @ p # (?n # ys))"
    using r np tne by (auto simp: runs_nonempty_def list_all_iff endChar_def)
  obtain c3 where step: "TextPiece_selectTowards p L s c = TextPiece_deleteTowards p L ?s1 c3"
    using a pa cb cl cr pn
    by (simp add: TextPiece_selectTowards_def Let_def split_beta createDir_def insDirOf_def)
  have t1: "textStr (heap ?s1 p) = ?t" "texts ?s1 xs = texts s xs" "texts ?s1 ys = texts s ys"
    "textStr (heap ?s1 ?n) = endChar R ?t"
    using np by (auto intro!: texts_cong)
  from runs_nonempty_deleteTowards[OF b1 r1, of L c3] obtain s' c' where
    s': "TextPiece_deleteTowards p L ?s1 c3 = Inr (s', c')"
        "block_children s' b (xs @ (if 1 < length ?t then [p] else []) @ (?n # ys))"
        "runs_nonempty s' (xs @ (if 1 < length ?t then [p] else []) @ (?n # ys))"
        "\<forall>x. x \<noteq> p \<longrightarrow> textStr (heap s' x) = textStr (heap ?s1 x)"
        "textStr (heap s' p) = (if 1 < length ?t then butlast ?t else ?t)"
    unfolding t1 by auto
  have pd: "p \<notin> set xs" "p \<notin> set ys"
    using b by (auto simp: block_children_def)
  have "texts s' xs = texts s xs" "texts s' ys = texts s ys"
    using s'(4) pd np by (auto intro!: texts_cong)
  moreover have "textStr (heap s' ?n) = [last ?t]"
    using s'(4) np tne by (simp add: endChar_def)
  ultimately
  have "texts s' (xs @ (if 1 < length ?t then [p] else []) @ (?n # ys)) = texts s (xs @ p # ys)"
    using s'(5) short_string[of ?t] short_last[of ?t] tne by auto
  then show ?thesis
    using step s' by metis
qed


lemma runs_nonempty_last_kind:
  "runs_nonempty s (xs @ ys) \<Longrightarrow> \<forall>f. last_or None xs = Some f \<longrightarrow> kind (heap s f) = TextPiece"
  by (cases xs rule: rev_cases) (auto simp: runs_nonempty_def)

lemma runs_nonempty_first_kind:
  "runs_nonempty s (xs @ ys) \<Longrightarrow> \<forall>f. first_or None ys = Some f \<longrightarrow> kind (heap s f) = TextPiece"
  by (cases ys) (auto simp: runs_nonempty_def)

lemma runs_nonempty_moveTowards_R:
  assumes c: "cursor_at s b c xs (p # ys)" and r: "runs_nonempty s (xs @ p # ys)"
  shows "\<exists>s' c' zs'. TextPiece_moveTowards p R s c = Inr (s', c') \<and>
           block_children s' b zs' \<and> runs_nonempty s' zs'"
proof -
  from moveTowards_R[OF c runs_nonempty_last_kind[OF r]] obtain s' c' xs' ys' where
    "TextPiece_moveTowards p R s c = Inr (s', c')" "cursor_at s' b c' xs' ys'"
    "runs_nonempty s (xs @ p # ys) \<longrightarrow> runs_nonempty s' (xs' @ ys')"
    by blast
  with r show ?thesis
    unfolding cursor_at_def by blast
qed

lemma runs_nonempty_moveTowards_L:
  assumes c: "cursor_at s b c (xs @ [p]) ys" and r: "runs_nonempty s (xs @ p # ys)"
  shows "\<exists>s' c' zs'. TextPiece_moveTowards p L s c = Inr (s', c') \<and>
           block_children s' b zs' \<and> runs_nonempty s' zs'"
proof -
  have r': "runs_nonempty s ((xs @ [p]) @ ys)"
    using r by simp
  from moveTowards_L[OF c runs_nonempty_first_kind[OF r']] obtain s' c' xs' ys' where
    "TextPiece_moveTowards p L s c = Inr (s', c')" "cursor_at s' b c' xs' ys'"
    "runs_nonempty s (xs @ p # ys) \<longrightarrow> runs_nonempty s' (xs' @ ys')"
    by blast
  with r show ?thesis
    unfolding cursor_at_def by blast
qed

lemma runs_nonempty_selectTowards:
  assumes m: "\<exists>s' c' zs'. TextPiece_moveTowards p d s c = Inr (s', c') \<and>
                block_children s' b zs' \<and> runs_nonempty s' zs'"
    and f: "\<And>a. anticursor c = Some a \<Longrightarrow> pdir d a = Some p \<Longrightarrow>
              \<exists>s' c' zs'. TextPiece_selectTowards p d s c = Inr (s', c') \<and>
                block_children s' b zs' \<and> runs_nonempty s' zs'"
    and b: "block_children s b zs" and r: "runs_nonempty s zs"
  shows "\<exists>s' c' zs'. TextPiece_selectTowards p d s c = Inr (s', c') \<and>
           block_children s' b zs' \<and> runs_nonempty s' zs'"
proof (cases "anticursor c")
  case None
  then have "TextPiece_selectTowards p d s c = Inr (s, c)"
    by (simp add: TextPiece_selectTowards_def)
  with b r show ?thesis by blast
next
  case (Some a)
  show ?thesis
  proof (cases "pdir d a = Some p")
    case True
    with Some f show ?thesis by blast
  next
    case False
    from selectTowards_as_move[OF Some False] obtain A where
      "TextPiece_selectTowards p d s c =
         map_sum id (\<lambda>(s', c'). (s', c'\<lparr>anticursor := A\<rparr>)) (TextPiece_moveTowards p d s c)"
      by blast
    with m show ?thesis by auto
  qed
qed

section \<open>Properties of the operations across two blocks\<close>

lemma block_children_disjoint:
  assumes "block_children s p xs" "block_children s q zs" "p \<noteq> q"
  shows "set xs \<inter> set zs = {}"
proof -
  have "parent (heap s x) = Some p" if "x \<in> set xs" for x
    using assms(1) that seg_parent[of s p None xs None x] by (simp add: block_children_def)
  moreover have "parent (heap s x) = Some q" if "x \<in> set zs" for x
    using assms(2) that seg_parent[of s q None zs None x] by (simp add: block_children_def)
  ultimately show ?thesis
    using assms(3) by fastforce
qed

lemma block_children_frame:
  assumes "block_children s q zs" "fresh s \<le> fresh s'"
    "endL (heap s' q) = endL (heap s q)" "endR (heap s' q) = endR (heap s q)"
    "\<And>x. x \<in> set zs \<Longrightarrow> parent (heap s' x) = parent (heap s x) \<and>
        sibL (heap s' x) = sibL (heap s x) \<and> sibR (heap s' x) = sibR (heap s x)"
  shows "block_children s' q zs"
  using assms seg_links_cong[of zs s' s q None None]
  by (auto simp: block_children_def list_all_iff)

lemma adopt_other_block:
  assumes "block_children s q zs" "q \<noteq> p" "n \<notin> set zs"
    "\<And>l. lw = Some l \<Longrightarrow> l \<notin> set zs" "\<And>r. rw = Some r \<Longrightarrow> r \<notin> set zs"
  shows "block_children (adopt n p lw rw s) q zs"
  using assms(1)
proof (rule block_children_frame)
  fix x assume "x \<in> set zs"
  then have "x \<noteq> n" "lw \<noteq> Some x" "rw \<noteq> Some x"
    using assms(3,4,5) by auto
  then show "parent (heap (adopt n p lw rw s) x) = parent (heap s x) \<and>
        sibL (heap (adopt n p lw rw s) x) = sibL (heap s x) \<and>
        sibR (heap (adopt n p lw rw s) x) = sibR (heap s x)"
    by (auto simp: adopt_def Let_def split: option.splits)
qed (use assms(2) in \<open>auto simp: adopt_def Let_def split: option.splits\<close>)


lemma disown_other_block:
  assumes p: "block_children s p (xs @ n # ys)" and q: "block_children s q zs" and pq: "p \<noteq> q"
    and d: "disown n s = Inr s'"
  shows "block_children s' q zs"
proof -
  have dj: "set (xs @ n # ys) \<inter> set zs = {}"
    using block_children_disjoint[OF p q pq] .
  have links: "parent (heap s n) = Some p" "sibL (heap s n) = last_or None xs"
    "sibR (heap s n) = first_or None ys"
    using p by (auto simp: block_children_def seg_append)
  have l: "last_or None xs = Some x \<Longrightarrow> x \<in> set xs" for x
    by (cases xs rule: rev_cases) auto
  have r: "first_or None ys = Some x \<Longrightarrow> x \<in> set ys" for x
    by (cases ys) auto
  have s': "s' = (let ll = last_or None xs; rr = first_or None ys;
               s1 = (case ll of Some x \<Rightarrow> upd x (sibR_update (\<lambda>_. rr)) s
                     | None \<Rightarrow> upd p (endL_update (\<lambda>_. rr)) s)
            in (case rr of Some y \<Rightarrow> upd y (sibL_update (\<lambda>_. ll)) s1
                | None \<Rightarrow> upd p (endR_update (\<lambda>_. ll)) s1))"
    using d links by (simp add: disown_def frag_disown_def Let_def)
  show ?thesis
    using q
  proof (rule block_children_frame)
    fix x assume x: "x \<in> set zs"
    then have "last_or None xs \<noteq> Some x" "first_or None ys \<noteq> Some x"
      using dj l[of x] r[of x] by auto
    then show "parent (heap s' x) = parent (heap s x) \<and>
        sibL (heap s' x) = sibL (heap s x) \<and> sibR (heap s' x) = sibR (heap s x)"
      unfolding s' by (auto simp: Let_def split: option.splits)
  qed (use pq in \<open>auto simp: s' Let_def split: option.splits\<close>)
qed

lemma blur_empty:
  assumes p: "block_children s p (us @ b # vs)" and e: "block_children s b []"
  shows "\<exists>s'. TextBlock_blur b rendered s c =
            Some (Inr (rendered, s',
              if cL c = Some b then c\<lparr>cL := last_or None us\<rparr>
              else if cR c = Some b then c\<lparr>cR := first_or None vs\<rparr> else c)) \<and>
           block_children s' p (us @ vs) \<and> fresh s' = fresh s \<and>
           (\<forall>x. textStr (heap s' x) = textStr (heap s x) \<and> kind (heap s' x) = kind (heap s x) \<and>
                ctrlSeq (heap s' x) = ctrlSeq (heap s x))"
proof -
  from disown_children[OF p] obtain s' where
    s': "disown b s = Inr s'" "block_children s' p (us @ vs)" "fresh s' = fresh s"
        "\<forall>x. textStr (heap s' x) = textStr (heap s x) \<and> kind (heap s' x) = kind (heap s x) \<and>
          ctrlSeq (heap s' x) = ctrlSeq (heap s x) \<and>
          anticursorPosition (heap s' x) = anticursorPosition (heap s x)"
        "heap s' b = heap s b"
    by blast
  have links: "sibL (heap s b) = last_or None us" "sibR (heap s b) = first_or None vs"
    using p by (auto simp: block_children_def seg_append)
  have "textContents s b = Some (Inr [])"
    using textContents_block[OF e] by simp
  then show ?thesis
    using s' links by (auto simp: TextBlock_blur_def remove_node_def)
qed


section \<open>Properties of fusing\<close>

lemma normalize_mirror:
  "normalize (map (\<lambda>x. DomText (textStr (heap s x))) xs) =
     (if texts s xs = [] then [] else [DomText (texts s xs)])"
  by (induction xs) (auto split: list.splits dom_node.splits)

lemma children_disown_block:
  assumes b: "block_children s b xs"
  shows "\<exists>s'. children_disown b s = Inr s' \<and> block_children s' b [] \<and> fresh s' = fresh s \<and>
           (\<forall>x. textStr (heap s' x) = textStr (heap s x) \<and> kind (heap s' x) = kind (heap s x) \<and>
                ctrlSeq (heap s' x) = ctrlSeq (heap s x) \<and>
                anticursorPosition (heap s' x) = anticursorPosition (heap s x))"
proof (cases "xs = []")
  case True
  with b show ?thesis
    by (auto simp: children_disown_def block_children_def)
next
  case False
  have e: "endL (heap s b) = Some (hd xs)" "endR (heap s b) = Some (last xs)"
    using b False by (auto simp: block_children_def first_or_hd last_or_last)
  have "sibL (heap s (hd xs)) = None" "parent (heap s (hd xs)) = Some b"
    using b False by (cases xs; auto simp: block_children_def)+
  moreover have "sibR (heap s (last xs)) = None"
    using b False seg_last_sibR[of s b None xs None] by (auto simp: block_children_def)
  moreover have "b < fresh s"
    using b by (simp add: block_children_def)
  ultimately show ?thesis
    using e by (simp add: children_disown_def frag_disown_def Let_def block_children_def)
qed

lemma TextBlockFuseChildren_mirror:
  assumes b: "block_children s b xs"
    and m: "rendered = map (\<lambda>x. DomText (textStr (heap s x))) xs"
    and t: "texts s xs \<noteq> []"
  shows "\<exists>s'. TextBlockFuseChildren b rendered s =
                 Inr ([DomText (texts s xs)], s', Some (fresh s)) \<and>
           block_children s' b [fresh s] \<and>
           textStr (heap s' (fresh s)) = texts s xs \<and> kind (heap s' (fresh s)) = TextPiece \<and>
           fresh s' = Suc (fresh s) \<and>
           (\<forall>x. x \<noteq> fresh s \<longrightarrow> textStr (heap s' x) = textStr (heap s x) \<and>
                kind (heap s' x) = kind (heap s x) \<and>
                anticursorPosition (heap s' x) = anticursorPosition (heap s x))"
proof -
  let ?s1 = "snd (new_node TextPiece (texts s xs) [] s)"
  have n: "normalize rendered = [DomText (texts s xs)]"
    using m t by (simp add: normalize_mirror)
  have b1: "block_children ?s1 b xs"
    using b by (rule block_children_new_node)
  from children_disown_block[OF b1] obtain s2 where
    s2: "children_disown b ?s1 = Inr s2" "block_children s2 b ([] @ [])" "fresh s2 = fresh ?s1"
        "\<forall>x. textStr (heap s2 x) = textStr (heap ?s1 x) \<and> kind (heap s2 x) = kind (heap ?s1 x) \<and>
          ctrlSeq (heap s2 x) = ctrlSeq (heap ?s1 x) \<and>
          anticursorPosition (heap s2 x) = anticursorPosition (heap ?s1 x)"
    by auto
  have nb: "fresh s \<noteq> b"
    using block_children_fresh[OF b] by simp
  have b3: "block_children (adopt (fresh s) b None None s2) b [fresh s]"
    using adopt_children[OF s2(2), of "fresh s"] nb s2(3) by simp
  show ?thesis
    using n s2 b3
    by (simp add: TextBlockFuseChildren_def Let_def split_beta heap_new_node)
qed

section \<open>Properties of seeking\<close>

lemma cursor_at_two_runs:
  assumes "cursor_at s b c xs ys" "length xs \<le> 1" "length ys \<le> 1"
    "list_all (\<lambda>x. kind (heap s x) = TextPiece) (xs @ ys)"
  shows "two_runs s b c \<and> xs = opt_list (cL c) \<and> ys = opt_list (cR c)"
proof -
  have "xs = opt_list (cL c)"
    using assms(1,2) by (cases xs; cases "tl xs") (auto simp: cursor_at_def)
  moreover have "ys = opt_list (cR c)"
    using assms(1,3) by (cases ys; cases "tl ys") (auto simp: cursor_at_def)
  ultimately show ?thesis
    using assms by (auto simp: two_runs_def)
qed

lemma deleteTowards_anticursorPosition:
  "TextPiece_deleteTowards p d s c = Inr (s', c') \<Longrightarrow>
   anticursorPosition (heap s' x) = anticursorPosition (heap s x) \<and> anticursor c' = anticursor c"
  by (cases d)
     (auto simp: TextPiece_deleteTowards_def Let_def remove_node_def disown_def frag_disown_def
        aria_queue_def split: if_splits sum.splits option.splits)

lemma moveTowards_anticursorPosition:
  assumes "TextPiece_moveTowards p d s c = Inr (s', c')" "x \<noteq> fresh s"
  shows "anticursorPosition (heap s' x) = anticursorPosition (heap s x)"
proof -
  obtain s1 c1 where m: "TextPiece_deleteTowards p d s1 c1 = Inr (s', c')"
    and f: "anticursorPosition (heap s1 x) = anticursorPosition (heap s x)"
    using assms
    by (cases d)
       (auto simp: TextPiece_moveTowards_def Let_def split_beta createDir_def heap_new_node
          insTextAtDirEnd_def appendText_def prependText_def split: option.splits if_splits)
  from deleteTowards_anticursorPosition[OF m, of x] f show ?thesis by simp
qed


lemma two_runs_step:
  assumes tr: "two_runs s b c" and nn: "cdir d c \<noteq> None"
  shows "\<exists>s1 c1. cursor_moveTowards d s c = Inr (s1, c1) \<and> two_runs s1 b c1 \<and>
           region_text s1 c1 = region_text s c \<and> anticursor c1 = anticursor c \<and>
           anticursorPosition (heap s1 b) = anticursorPosition (heap s b) \<and>
           cdir (opp d) c1 \<noteq> None \<and>
           length (texts s1 (opt_list (cdir d c1))) + length (opt_list (cdir d c1)) <
             length (texts s (opt_list (cdir d c))) + length (opt_list (cdir d c))"
proof (cases d)
  case R
  then obtain p where p: "cR c = Some p"
    using nn by auto
  let ?xs = "opt_list (cL c)"
  let ?t = "textStr (heap s p)"
  have ca: "cursor_at s b c ?xs (p # [])" and kp: "kind (heap s p) = TextPiece"
    and kx: "list_all (\<lambda>x. kind (heap s x) = TextPiece) ?xs"
    using tr p by (auto simp: two_runs_def)
  have k: "\<forall>f. last_or None ?xs = Some f \<longrightarrow> kind (heap s f) = TextPiece"
    using kx by (cases "cL c") auto
  from moveTowards_R[OF ca k] obtain s1 c1 xs' ys' where
    m: "TextPiece_moveTowards p R s c = Inr (s1, c1)" "cursor_at s1 b c1 xs' ys'"
       "xs' = (if ?xs = [] then [fresh s] else ?xs)"
       "ys' = (if 1 < length ?t then p # [] else [])"
       "texts s1 xs' = texts s ?xs @ take 1 ?t"
       "texts s1 ys' = drop 1 ?t @ texts s []"
       "\<forall>x. kind (heap s1 x) = (if x = fresh s \<and> ?xs = [] then TextPiece else kind (heap s x))"
       "anticursor c1 = anticursor c"
    by blast
  have len: "length xs' \<le> 1" "length ys' \<le> 1" "xs' \<noteq> []"
    using m(3,4) by (cases "cL c"; auto)+
  have kinds: "list_all (\<lambda>x. kind (heap s1 x) = TextPiece) (xs' @ ys')"
    using m(3,4,7) kp kx by (cases "cL c") (auto simp: list_all_iff)
  from cursor_at_two_runs[OF m(2) len(1,2) kinds]
  have t1: "two_runs s1 b c1" "xs' = opt_list (cL c1)" "ys' = opt_list (cR c1)"
    by auto
  have bf: "b \<noteq> fresh s"
    using ca by (auto simp: cursor_at_def block_children_def)
  have ap: "anticursorPosition (heap s1 b) = anticursorPosition (heap s b)"
    using moveTowards_anticursorPosition[OF m(1) bf] .
  have rt: "region_text s1 c1 = region_text s c"
    using m(5,6) t1(2,3) p by (simp add: region_text_def)
  have ms: "length (texts s1 (opt_list (cR c1))) + length (opt_list (cR c1)) <
             length (texts s (opt_list (cR c))) + length (opt_list (cR c))"
    using m(4,6) t1(3) p by (auto split: if_splits)
  have cl: "cL c1 \<noteq> None"
    using t1(2) len(3) by (cases "cL c1") auto
  show ?thesis
    using R p kp m(1,8) t1(1) rt ap ms cl
    by (auto simp: cursor_moveTowards_def)
next
  case L
  then obtain p where p: "cL c = Some p"
    using nn by auto
  let ?ys = "opt_list (cR c)"
  let ?t = "textStr (heap s p)"
  have ca: "cursor_at s b c ([] @ [p]) ?ys" and kp: "kind (heap s p) = TextPiece"
    and ky: "list_all (\<lambda>x. kind (heap s x) = TextPiece) ?ys"
    using tr p by (auto simp: two_runs_def)
  have k: "\<forall>f. first_or None ?ys = Some f \<longrightarrow> kind (heap s f) = TextPiece"
    using ky by (cases "cR c") auto
  from moveTowards_L[OF ca k] obtain s1 c1 xs' ys' where
    m: "TextPiece_moveTowards p L s c = Inr (s1, c1)" "cursor_at s1 b c1 xs' ys'"
       "xs' = (if 1 < length ?t then [] @ [p] else [])"
       "ys' = (if ?ys = [] then [fresh s] else ?ys)"
       "texts s1 xs' = texts s [] @ butlast ?t"
       "texts s1 ys' = endChar R ?t @ texts s ?ys"
       "\<forall>x. kind (heap s1 x) = (if x = fresh s \<and> ?ys = [] then TextPiece else kind (heap s x))"
       "anticursor c1 = anticursor c"
    by blast
  have len: "length xs' \<le> 1" "length ys' \<le> 1" "ys' \<noteq> []"
    using m(3,4) by (cases "cR c"; auto)+
  have kinds: "list_all (\<lambda>x. kind (heap s1 x) = TextPiece) (xs' @ ys')"
    using m(3,4,7) kp ky by (cases "cR c") (auto simp: list_all_iff)
  from cursor_at_two_runs[OF m(2) len(1,2) kinds]
  have t1: "two_runs s1 b c1" "xs' = opt_list (cL c1)" "ys' = opt_list (cR c1)"
    by auto
  have bf: "b \<noteq> fresh s"
    using ca by (auto simp: cursor_at_def block_children_def)
  have ap: "anticursorPosition (heap s1 b) = anticursorPosition (heap s b)"
    using moveTowards_anticursorPosition[OF m(1) bf] .
  have be: "butlast t @ endChar R t = t" for t :: string
    by (simp add: endChar_def)
  have rt: "region_text s1 c1 = region_text s c"
    using m(5,6) t1(2,3) p be[of ?t] by (simp add: region_text_def)
  have ms: "length (texts s1 (opt_list (cL c1))) + length (opt_list (cL c1)) <
             length (texts s (opt_list (cL c))) + length (opt_list (cL c))"
    using m(3,5) t1(2) p by (auto split: if_splits)
  have cr: "cR c1 \<noteq> None"
    using t1(3) len(3) by (cases "cR c1") auto
  show ?thesis
    using L p kp m(1,8) t1(1) rt ap ms cr
    by (auto simp: cursor_moveTowards_def)
qed

lemma seek_loop_two_runs:
  assumes "two_runs s b c"
  shows "\<exists>displ' prev' s' c'.
           seek_loop displ_of d displ prev s c = Some (Inr (displ', prev', s', c')) \<and>
           two_runs s' b c' \<and> region_text s' c' = region_text s c \<and>
           anticursor c' = anticursor c \<and>
           anticursorPosition (heap s' b) = anticursorPosition (heap s b) \<and>
           ((displ', prev', s', c') = (displ, prev, s, c) \<or> cdir (opp d) c' \<noteq> None)"
  using assms
proof (induction "length (texts s (opt_list (cdir d c))) + length (opt_list (cdir d c))"
    arbitrary: s c displ prev rule: less_induct)
  case less
  show ?case
  proof (cases "cdir d c \<noteq> None \<and> 0 < displ * prev")
    case False
    then have "seek_loop displ_of d displ prev s c = Some (Inr (displ, prev, s, c))"
      by (subst seek_loop.simps) auto
    with less.prems show ?thesis by auto
  next
    case True
    from two_runs_step[OF less.prems, of d] True obtain s1 c1 where
      st: "cursor_moveTowards d s c = Inr (s1, c1)" "two_runs s1 b c1"
          "region_text s1 c1 = region_text s c" "anticursor c1 = anticursor c"
          "anticursorPosition (heap s1 b) = anticursorPosition (heap s b)"
          "cdir (opp d) c1 \<noteq> None"
          "length (texts s1 (opt_list (cdir d c1))) + length (opt_list (cdir d c1)) <
             length (texts s (opt_list (cdir d c))) + length (opt_list (cdir d c))"
      by blast
    have unf: "seek_loop displ_of d displ prev s c =
                 seek_loop displ_of d (displ_of s1 c1) displ s1 c1"
      using True st(1) by (subst seek_loop.simps) simp
    from less.hyps[OF st(7) st(2), of "displ_of s1 c1" displ] obtain displ' prev' s' c' where
      r: "seek_loop displ_of d (displ_of s1 c1) displ s1 c1 = Some (Inr (displ', prev', s', c'))"
         "two_runs s' b c'" "region_text s' c' = region_text s1 c1"
         "anticursor c' = anticursor c1"
         "anticursorPosition (heap s' b) = anticursorPosition (heap s1 b)"
         "(displ', prev', s', c') = (displ_of s1 c1, displ, s1, c1) \<or> cdir (opp d) c' \<noteq> None"
      by blast
    have "cdir (opp d) c' \<noteq> None"
      using r(6) st(6) by auto
    then show ?thesis
      using unf r st by auto
  qed
qed


lemma seek_place_two_runs:
  assumes b: "block_children s b [t]" and kt: "kind (heap s t) = TextPiece"
  shows "\<exists>s2 c2. seek_place b t rects approxPosition s c = Inr (s2, c2) \<and>
           two_runs s2 b c2 \<and> region_text s2 c2 = textStr (heap s t) \<and>
           anticursor c2 = anticursor c \<and>
           anticursorPosition (heap s2 b) = anticursorPosition (heap s b)"
proof -
  have e: "endL (heap s b) = Some t" "endR (heap s b) = Some t"
    using b by (auto simp: block_children_def)
  have left: "two_runs s b (insAtDirEnd L b s c) \<and>
      region_text s (insAtDirEnd L b s c) = textStr (heap s t) \<and>
      anticursor (insAtDirEnd L b s c) = anticursor c"
    using b kt e by (simp add: insAtDirEnd_def two_runs_def cursor_at_def region_text_def)
  have right: "two_runs s b (insAtDirEnd R b s c) \<and>
      region_text s (insAtDirEnd R b s c) = textStr (heap s t) \<and>
      anticursor (insAtDirEnd R b s c) = anticursor c"
    using b kt e by (simp add: insAtDirEnd_def two_runs_def cursor_at_def region_text_def)
  show ?thesis
  proof (cases "rects = 1 \<and> 0 < approxPosition \<and> approxPosition < int (length (textStr (heap s t)))")
    case False
    then show ?thesis
      using left right by (auto simp: seek_place_def)
  next
    case True
    let ?i = "nat approxPosition"
    have b': "block_children s b ([] @ t # [])" and i: "?i \<le> length (textStr (heap s t))"
      using b True by auto
    from splitRight_children[OF b' i] obtain s' where
      s': "splitRight t ?i s = Inr (fresh s, s')" "block_children s' b ([] @ t # fresh s # [])"
          "textStr (heap s' t) = take ?i (textStr (heap s t))"
          "textStr (heap s' (fresh s)) = drop ?i (textStr (heap s t))"
          "kind (heap s' (fresh s)) = TextPiece" "sibL (heap s' (fresh s)) = Some t"
          "\<forall>x. x \<noteq> fresh s \<longrightarrow> kind (heap s' x) = kind (heap s x) \<and>
                anticursorPosition (heap s' x) = anticursorPosition (heap s x)"
      by blast
    have nf: "t \<noteq> fresh s" "b \<noteq> fresh s"
      using block_children_fresh[OF b] by auto
    have pn: "parent (heap s' (fresh s)) = Some b"
      using s'(2) by (auto simp: block_children_def)
    let ?c2 = "c\<lparr>cparent := b, cL := Some t, cR := Some (fresh s)\<rparr>"
    have sp: "seek_place b t rects approxPosition s c = Inr (s', ?c2)"
      using True s'(1,6) pn by (simp add: seek_place_def insLeftOf_def insDirOf_def)
    have "two_runs s' b ?c2"
      using s'(2,5,7) kt nf by (simp add: two_runs_def cursor_at_def)
    moreover have "region_text s' ?c2 = textStr (heap s t)"
      using s'(3,4) by (simp add: region_text_def)
    ultimately show ?thesis
      using sp s'(7) nf by auto
  qed
qed

lemma seek_anticursor_none:
  assumes tr: "two_runs s b c" and a: "anticursor c = None"
  shows "seek_anticursor b s c =
           Inr (upd b (anticursorPosition_update (\<lambda>_. Some (cursor_offset s c))) s, c)"
  using assms
  by (cases "cL c") (auto simp: seek_anticursor_def cursorPosition_def cursor_offset_def two_runs_def)

lemma block_children_upd_anticursorPosition:
  "block_children s b xs \<Longrightarrow> block_children (upd p (anticursorPosition_update f) s) b xs"
  by (auto simp: block_children_def list_all_iff intro: seg_links_cong[THEN iffD2])

lemma seek_anticursor_some:
  assumes tr: "two_runs s b c" and a: "anticursor c = Some a" and pa: "pparent a = b"
    and k: "anticursorPosition (heap s b) = Some k" and kl: "k \<le> length (region_text s c)"
  shows "\<exists>s' c' ys zs ps qs. seek_anticursor b s c = Inr (s', c') \<and>
           cursor_at s' b c' ys zs \<and> ps @ qs = ys @ zs \<and>
           texts s' (ys @ zs) = region_text s c \<and>
           length (texts s' ys) = cursor_offset s c \<and>
           anticursor c' = Some \<lparr>pparent = b, pL = last_or None ps, pR = first_or None qs\<rparr> \<and>
           length (texts s' ps) = k \<and>
           (k = cursor_offset s c \<longrightarrow> s' = s \<and> ps = ys \<and> qs = zs)"
proof -
  let ?xs = "opt_list (cL c)" and ?ys = "opt_list (cR c)"
  have ca: "cursor_at s b c ?xs ?ys" and cb: "cparent c = b"
    and kinds: "list_all (\<lambda>x. kind (heap s x) = TextPiece) (?xs @ ?ys)"
    using tr by (auto simp: two_runs_def cursor_at_def)
  have cp: "cursorPosition s c = Inr (cursor_offset s c)"
    using kinds by (cases "cL c") (auto simp: cursorPosition_def cursor_offset_def)
  consider (eq) "k = cursor_offset s c" | (lt) "k < cursor_offset s c" | (gt) "cursor_offset s c < k"
    by linarith
  then show ?thesis
  proof cases
    case eq
    have "seek_anticursor b s c =
            Inr (s, c\<lparr>anticursor := Some \<lparr>pparent = b, pL = cL c, pR = cR c\<rparr>\<rparr>)"
      using a pa k cp eq cb by (simp add: seek_anticursor_def)
    moreover have "cursor_at s b (c\<lparr>anticursor := Some \<lparr>pparent = b, pL = cL c, pR = cR c\<rparr>\<rparr>) ?xs ?ys"
      using ca by (simp add: cursor_at_def)
    moreover have "cL c = last_or None ?xs" "cR c = first_or None ?ys"
      by (cases "cL c"; simp)+ (cases "cR c"; simp)
    ultimately show ?thesis
      using eq by (intro exI[of _ s] exI[of _ "c\<lparr>anticursor := Some \<lparr>pparent = b, pL = cL c, pR = cR c\<rparr>\<rparr>"]
          exI[of _ ?xs] exI[of _ ?ys]) (simp add: region_text_def cursor_offset_def)
  next
    case lt
    then obtain l where l: "cL c = Some l"
      by (cases "cL c") (auto simp: cursor_offset_def)
    let ?t = "textStr (heap s l)"
    have b': "block_children s b ([] @ l # ?ys)" and i: "k \<le> length ?t" and co: "cursor_offset s c = length ?t"
      using ca l lt by (auto simp: cursor_at_def cursor_offset_def)
    from splitRight_children[OF b' i] obtain s' where
      s': "splitRight l k s = Inr (fresh s, s')" "block_children s' b ([] @ l # fresh s # ?ys)"
          "textStr (heap s' l) = take k ?t" "textStr (heap s' (fresh s)) = drop k ?t"
          "sibL (heap s' (fresh s)) = Some l"
          "\<forall>x. x \<noteq> l \<and> x \<noteq> fresh s \<longrightarrow> textStr (heap s' x) = textStr (heap s x)"
      by blast
    let ?c' = "c\<lparr>cL := Some (fresh s),
                  anticursor := Some \<lparr>pparent = b, pL = Some l, pR = Some (fresh s)\<rparr>\<rparr>"
    have sa: "seek_anticursor b s c = Inr (s', ?c')"
      using a pa k cp lt l s'(1,5) by (simp add: seek_anticursor_def)
    have nl: "l \<notin> set ?ys" "fresh s \<notin> set ?ys"
      using b' block_children_fresh[OF b'] by (auto simp: block_children_def)
    have ty: "texts s' ?ys = texts s ?ys"
      using s'(6) nl by (intro texts_cong) auto
    have cat: "cursor_at s' b ?c' [l, fresh s] ?ys"
      using s'(2) cb ca by (cases "cR c") (auto simp: cursor_at_def)
    show ?thesis
      using sa cat s'(3,4) ty lt l co
      by (intro exI[of _ s'] exI[of _ ?c'] exI[of _ "[l, fresh s]"] exI[of _ ?ys]
          exI[of _ "[l]"] exI[of _ "fresh s # ?ys"])
         (simp add: region_text_def)
  next
    case gt
    have "cR c \<noteq> None"
      using gt kl by (cases "cR c") (auto simp: region_text_def cursor_offset_def)
    then obtain r where r: "cR c = Some r"
      by auto
    let ?t = "textStr (heap s r)"
    have b': "block_children s b (?xs @ r # [])" and kr: "kind (heap s r) = TextPiece"
      and i: "k - cursor_offset s c \<le> length ?t"
      using ca r kinds kl by (auto simp: cursor_at_def region_text_def cursor_offset_def)
    from splitRight_children[OF b' i] obtain s' where
      s': "splitRight r (k - cursor_offset s c) s = Inr (fresh s, s')"
          "block_children s' b (?xs @ r # fresh s # [])"
          "textStr (heap s' r) = take (k - cursor_offset s c) ?t"
          "textStr (heap s' (fresh s)) = drop (k - cursor_offset s c) ?t"
          "sibL (heap s' (fresh s)) = Some r"
          "\<forall>x. x \<noteq> r \<and> x \<noteq> fresh s \<longrightarrow> textStr (heap s' x) = textStr (heap s x)"
      by blast
    let ?c' = "c\<lparr>anticursor := Some \<lparr>pparent = b, pL = Some r, pR = Some (fresh s)\<rparr>\<rparr>"
    have sa: "seek_anticursor b s c = Inr (s', ?c')"
      using a pa k cp gt r kr s'(1,5) by (simp add: seek_anticursor_def split_cursorR_def)
    have nl: "r \<notin> set ?xs" "fresh s \<notin> set ?xs"
      using b' block_children_fresh[OF b'] by (auto simp: block_children_def)
    have tx: "texts s' ?xs = texts s ?xs"
      using s'(6) nl by (intro texts_cong) auto
    have cat: "cursor_at s' b ?c' ?xs [r, fresh s]"
      using s'(2) cb ca r by (auto simp: cursor_at_def)
    show ?thesis
      using sa cat s'(3,4) tx gt r i
      by (intro exI[of _ s'] exI[of _ ?c'] exI[of _ ?xs] exI[of _ "[r, fresh s]"]
          exI[of _ "?xs @ [r]"] exI[of _ "[fresh s]"])
         (simp add: region_text_def cursor_offset_def)
  qed
qed


lemma TextBlock_seek_two_runs:
  assumes b: "block_children s b xs"
    and m: "rendered = map (\<lambda>x. DomText (textStr (heap s x))) xs"
    and t: "texts s xs \<noteq> []"
  shows "\<exists>s4 c4. TextBlock_seek b rendered rects approxPosition displ_of s c =
                    Some (seek_anticursor b s4 c4) \<and>
           two_runs s4 b c4 \<and> region_text s4 c4 = texts s xs \<and>
           anticursor c4 = anticursor c \<and>
           anticursorPosition (heap s4 b) = anticursorPosition (heap s b)"
proof -
  from TextBlockFuseChildren_mirror[OF b m t] obtain s1 where
    s1: "TextBlockFuseChildren b rendered s = Inr ([DomText (texts s xs)], s1, Some (fresh s))"
        "block_children s1 b [fresh s]" "textStr (heap s1 (fresh s)) = texts s xs"
        "kind (heap s1 (fresh s)) = TextPiece"
        "\<forall>x. x \<noteq> fresh s \<longrightarrow> anticursorPosition (heap s1 x) = anticursorPosition (heap s x)"
    by blast
  have bf: "b \<noteq> fresh s"
    using block_children_fresh[OF b] by simp
  from seek_place_two_runs[OF s1(2,4), of rects approxPosition c] obtain s2 c2 where
    s2: "seek_place b (fresh s) rects approxPosition s1 c = Inr (s2, c2)" "two_runs s2 b c2"
        "region_text s2 c2 = textStr (heap s1 (fresh s))" "anticursor c2 = anticursor c"
        "anticursorPosition (heap s2 b) = anticursorPosition (heap s1 b)"
    by blast
  define displ where "displ = displ_of s2 c2"
  define d where "d = (if displ < 0 then L else R)"
  from seek_loop_two_runs[OF s2(2), of displ_of d displ "dir_num d"] obtain displ' prev' s3 c3 where
    s3: "seek_loop displ_of d displ (dir_num d) s2 c2 = Some (Inr (displ', prev', s3, c3))"
        "two_runs s3 b c3" "region_text s3 c3 = region_text s2 c2" "anticursor c3 = anticursor c2"
        "anticursorPosition (heap s3 b) = anticursorPosition (heap s2 b)"
        "(displ', prev', s3, c3) = (displ, dir_num d, s2, c2) \<or> cdir (opp d) c3 \<noteq> None"
    by blast
  have stepback: "\<exists>s4 c4. (if dir_num d * displ' < - dir_num d * prev'
                        then cursor_moveTowards (opp d) s3 c3 else Inr (s3, c3)) = Inr (s4, c4) \<and>
                 two_runs s4 b c4 \<and> region_text s4 c4 = region_text s3 c3 \<and>
                 anticursor c4 = anticursor c3 \<and>
                 anticursorPosition (heap s4 b) = anticursorPosition (heap s3 b)"
  proof (cases "dir_num d * displ' < - dir_num d * prev'")
    case False
    then show ?thesis using s3(2) by auto
  next
    case True
    have "cdir (opp d) c3 \<noteq> None"
    proof (rule ccontr)
      assume "\<not> cdir (opp d) c3 \<noteq> None"
      then have "displ' = displ" "prev' = dir_num d"
        using s3(6) by auto
      then show False
        using True by (auto simp: d_def split: if_splits)
    qed
    from two_runs_step[OF s3(2) this] True show ?thesis
      by auto
  qed
  then obtain s4 c4 where
    s4: "(if dir_num d * displ' < - dir_num d * prev'
          then cursor_moveTowards (opp d) s3 c3 else Inr (s3, c3)) = Inr (s4, c4)"
        "two_runs s4 b c4" "region_text s4 c4 = region_text s3 c3"
        "anticursor c4 = anticursor c3"
        "anticursorPosition (heap s4 b) = anticursorPosition (heap s3 b)"
    by blast
  have "TextBlock_seek b rendered rects approxPosition displ_of s c = Some (seek_anticursor b s4 c4)"
    using s1(1) s2(1) s3(1) s4(1)
    by (auto simp add: TextBlock_seek_def Let_def displ_def[symmetric] d_def[symmetric]
        split: if_splits)
  then show ?thesis
    using s4 s3 s2 s1 bf by auto
qed

section \<open>The example trees are well linked\<close>

lemma ex_store3_children: "block_children ex_store3 1 ([2] @ 3 # [4])"
  by (simp add: block_children_def ex_store3_def ex_node_def)

lemma ex_store3_cursor_at:
  "cursor_at ex_store3 1 (ex_cursor 1 (Some 2) (Some 3)) [2] (3 # [4])"
  "cursor_at ex_store3 1 (ex_cursor 1 (Some 3) (Some 4)) ([2] @ [3]) [4]"
  using ex_store3_children by (simp_all add: cursor_at_def ex_cursor_def)

lemma ex_store3_kinds:
  "kind (heap ex_store3 2) = TextPiece" "kind (heap ex_store3 4) = TextPiece"
  by (simp_all add: ex_store3_def ex_node_def)

lemma ex_store3_text: "textContents ex_store3 1 = Some (Inr ''hello'')"
  using textContents_block[OF ex_store3_children] by (simp add: ex_store3_def ex_node_def)

lemma ex_store3_runs: "runs_nonempty ex_store3 [2, 3, 4]"
  by (simp add: runs_nonempty_def ex_store3_def ex_node_def)

lemma ex_store_empty_children: "block_children ex_store_empty 1 []"
  by (simp add: block_children_def ex_store_empty_def ex_node_def)

lemma ex_store_empty_cursor_at: "cursor_at ex_store_empty 1 (ex_cursor 1 None None) [] []"
  using ex_store_empty_children by (simp add: cursor_at_def ex_cursor_def)

lemma ex_store_braces_children: "block_children ex_store_braces 1 [2]"
  by (simp add: block_children_def ex_store_braces_def ex_node_def)


lemma ex_store3_parent: "block_children ex_store3 0 ([] @ 1 # [])"
  by (simp add: block_children_def ex_store3_def ex_node_def)

lemma ex_store3_cursor_at_34: "cursor_at ex_store3 1 (ex_cursor 1 (Some 3) (Some 4)) (2 # [3]) [4]"
  using ex_store3_cursor_at(2) by simp

lemma ex_store3_drag_children: "block_children ex_store3_drag 1 [2, 3, 4]"
  unfolding ex_store3_drag_def
  using ex_store3_children by (auto intro: block_children_upd_anticursorPosition)

lemma ex_store3_drag_data:
  "map (\<lambda>x. DomText (textStr (heap ex_store3_drag x))) [2, 3, 4] =
     [DomText ''h'', DomText ''ell'', DomText ''o'']"
  "texts ex_store3_drag [2, 3, 4] = ''hello''"
  "anticursorPosition (heap ex_store3_drag 1) = Some 1"
  by (simp_all add: ex_store3_drag_def ex_store3_def ex_node_def)

lemma TextBlock_seek_three_runs:
  "\<exists>s' c'. TextBlock_seek 1 [DomText ''h'', DomText ''ell'', DomText ''o''] 1 4 ex_displ
              ex_store3_drag ex_cursor_drag = Some (Inr (s', c')) \<and>
     block_children s' 0 [1] \<and>
     block_children s' 1 [5, 7, 6] \<and> cparent c' = 1 \<and> cL c' = Some 7 \<and> cR c' = Some 6 \<and>
     textStr (heap s' 5) = ''h'' \<and> textStr (heap s' 7) = ''ell'' \<and> textStr (heap s' 6) = ''o'' \<and>
     selection c' = None \<and> fresh s' = 8 \<and> aria c' = []"
  apply (subst TextBlock_seek_def)
  apply (simp add: TextBlockFuseChildren_def children_disown_def frag_disown_def
      ex_store3_drag_def ex_store3_def ex_node_def ex_cursor_drag_def ex_displ_def
      new_node_def adopt_def upd_def Let_def seek_place_def splitRight_def insLeftOf_def
      insDirOf_def)
  apply (subst seek_loop.simps)
  apply (simp add: seek_anticursor_def cursorPosition_def splitRight_def new_node_def adopt_def
      upd_def Let_def block_children_def)
  done

lemma ex_store_math_children:
  "block_children ex_store_math 0 [1]" "block_children ex_store_math 1 [2]"
  "block_children ex_store_math 2 []"
  by (simp_all add: block_children_def ex_store_math_def ex_node_def)

lemma ex_store_math_isEmpty: "MathCommand_isEmpty ex_store_math 1 = Some (Inr True)"
proof -
  have "isEmpty ex_store_math 2"
    by (simp add: isEmpty_def ex_store_math_def ex_node_def)
  then show ?thesis
    using foldChildren_block[OF ex_store_math_children(2), of True "\<lambda>e child. e \<and> isEmpty ex_store_math child"]
    by (simp add: MathCommand_isEmpty_def)
qed

lemma ex_store_math_disown:
  "disown 1 ex_store_math = Inr (upd 0 (\<lambda>x. x\<lparr>endL := None, endR := None\<rparr>) ex_store_math)"
  by (auto simp: disown_def frag_disown_def ex_store_math_def ex_node_def upd_def Let_def fun_eq_iff)

section \<open>Parsing and rendering a region\<close>

lemma replace_chars_none:
  "(\<And>ch. ch \<in> set t \<Longrightarrow> \<not> m ch) \<Longrightarrow> replace_chars m r t = t"
  by (induction t) (auto simp: replace_chars_def)

lemma escape_contents_map:
  "escape_contents t =
     concat (map (\<lambda>ch. if ch = backslash then backslash # ''backslash ''
                        else if ch = CHR ''{'' \<or> ch = CHR ''}'' then [backslash, ch]
                        else [ch]) t)"
  by (induction t) (auto simp: escape_contents_def replace_chars_def backslash_def)

lemma escape_contents_plain:
  "\<forall>ch\<in>set t. ch \<noteq> CHR ''{'' \<and> ch \<noteq> CHR ''}'' \<and> ch \<noteq> backslash \<Longrightarrow> escape_contents t = t"
  by (simp add: escape_contents_def replace_chars_none)

lemma TextBlock_parser_braces:
  assumes "CHR ''}'' \<notin> set t"
  shows "TextBlock_parser b s (''{'' @ t @ ''}'') =
           (if t = [] then Inr (EmptyFragment, s, [])
            else Inr (ParsedBlock b, adopt (fresh s) b None None (snd (new_node TextPiece t [] s)), []))"
proof -
  have "takeWhile (\<lambda>ch. ch \<noteq> CHR ''}'') (t @ ''}'') = t \<and>
    dropWhile (\<lambda>ch. ch \<noteq> CHR ''}'') (t @ ''}'') = ''}''"
    using assms by (induction t) auto
  then show ?thesis
    by (simp add: TextBlock_parser_def p_skip_def p_then_def optWhitespace_def p_string_def
        p_regex_not_closing_def is_space_def split_beta Let_def)
qed

lemma latex_block:
  "block_children s b xs \<Longrightarrow>
   latex s b = Some (Inr (if texts s xs = [] then []
                          else ctrlSeq (heap s b) @ ''{'' @ escape_contents (texts s xs) @ ''}''))"
  by (simp add: latex_def textContents_block)

text \<open>
  Claim C4. For a string \<open>t\<close> with no brace and no backslash, parsing \<^verbatim>\<open>{t}\<close> into an empty
  region consumes the whole input; when \<open>t\<close> is not empty the region gets one run that
  holds \<open>t\<close>, and it renders as its control sequence followed by \<^verbatim>\<open>{t}\<close>; when \<open>t\<close> is
  empty no run is created and the region renders as the empty string. In general a
  region with no text renders as the empty string, and a region with text renders as its
  control sequence and, in braces, its text with every backslash replaced by
  \<^verbatim>\<open>\backslash\<close> followed by a space and every brace preceded by a backslash.
\<close>

theorem parse_render_roundtrip:
  "(block_children s b [] \<and>
    (\<forall>ch\<in>set t. ch \<noteq> CHR ''{'' \<and> ch \<noteq> CHR ''}'' \<and> ch \<noteq> backslash) \<longrightarrow>
      (\<exists>res s'. TextBlock_parser b s (''{'' @ t @ ''}'') = Inr (res, s', []) \<and>
         (t \<noteq> [] \<longrightarrow> res = ParsedBlock b \<and> block_children s' b [fresh s] \<and>
            textStr (heap s' (fresh s)) = t \<and>
            latex s' b = Some (Inr (ctrlSeq (heap s b) @ ''{'' @ t @ ''}''))) \<and>
         (t = [] \<longrightarrow> res = EmptyFragment \<and> s' = s \<and> latex s' b = Some (Inr [])))) \<and>
   (block_children s b xs \<longrightarrow>
      latex s b =
        Some (Inr (if texts s xs = [] then []
                   else ctrlSeq (heap s b) @ ''{'' @
                        concat (map (\<lambda>ch. if ch = backslash then backslash # ''backslash ''
                                           else if ch = CHR ''{'' \<or> ch = CHR ''}''
                                                then [backslash, ch] else [ch])
                                 (texts s xs)) @ ''}'')))"
proof (intro conjI impI)
  assume h: "block_children s b [] \<and>
    (\<forall>ch\<in>set t. ch \<noteq> CHR ''{'' \<and> ch \<noteq> CHR ''}'' \<and> ch \<noteq> backslash)"
  then have b: "block_children s b ([] @ [])" and nc: "CHR ''}'' \<notin> set t"
    and plain: "\<forall>ch\<in>set t. ch \<noteq> CHR ''{'' \<and> ch \<noteq> CHR ''}'' \<and> ch \<noteq> backslash"
    by auto
  let ?s' = "adopt (fresh s) b None None (snd (new_node TextPiece t [] s))"
  have b1: "block_children ?s' b [fresh s]"
    using adopt_new_children[OF b, of TextPiece t "[]"] by simp
  have nb: "fresh s \<noteq> b"
    using block_children_fresh[OF b] by simp
  have "latex ?s' b = Some (Inr (if t = [] then [] else ctrlSeq (heap s b) @ ''{'' @ t @ ''}''))"
    using latex_block[OF b1] escape_contents_plain[OF plain] nb
    by (simp add: heap_new_node)
  moreover have "latex s b = Some (Inr [])"
    using latex_block[of s b "[]"] h by simp
  ultimately show "\<exists>res s'. TextBlock_parser b s (''{'' @ t @ ''}'') = Inr (res, s', []) \<and>
         (t \<noteq> [] \<longrightarrow> res = ParsedBlock b \<and> block_children s' b [fresh s] \<and>
            textStr (heap s' (fresh s)) = t \<and>
            latex s' b = Some (Inr (ctrlSeq (heap s b) @ ''{'' @ t @ ''}''))) \<and>
         (t = [] \<longrightarrow> res = EmptyFragment \<and> s' = s \<and> latex s' b = Some (Inr []))"
    using TextBlock_parser_braces[OF nc, of b s] b1 by auto
next
  assume "block_children s b xs"
  then show "latex s b =
        Some (Inr (if texts s xs = [] then []
                   else ctrlSeq (heap s b) @ ''{'' @
                        concat (map (\<lambda>ch. if ch = backslash then backslash # ''backslash ''
                                           else if ch = CHR ''{'' \<or> ch = CHR ''}''
                                                then [backslash, ch] else [ch])
                                 (texts s xs)) @ ''}''))"
    using latex_block[of s b xs] by (simp add: escape_contents_map)
qed

theorem parse_render_roundtrip_witness:
  "block_children ex_store_empty 1 [] \<and>
   (\<exists>s'. TextBlock_parser 1 ex_store_empty ''{cat}'' = Inr (ParsedBlock 1, s', []) \<and>
      latex s' 1 = Some (Inr (text_ctrlSeq @ ''{cat}''))) \<and>
   TextBlock_parser 1 ex_store_empty ''{}'' = Inr (EmptyFragment, ex_store_empty, []) \<and>
   latex ex_store_empty 1 = Some (Inr []) \<and>
   block_children ex_store_braces 1 [2] \<and>
   latex ex_store_braces 1 =
     Some (Inr (text_ctrlSeq @ ''{a'' @ [CHR 0x5C] @ ''backslash '' @ [CHR 0x5C] @ ''{b'' @ [CHR 0x5C] @ ''}}''))"
proof -
  have c: "ctrlSeq (heap ex_store_empty (Suc 0)) = text_ctrlSeq"
    "ctrlSeq (heap ex_store_braces (Suc 0)) = text_ctrlSeq"
    "texts ex_store_braces [2] = [CHR ''a'', CHR 0x5C, CHR ''{'', CHR ''b'', CHR ''}'']"
    by (simp_all add: ex_store_empty_def ex_store_braces_def ex_node_def)
  show ?thesis
    using ex_store_empty_children ex_store_braces_children
      parse_render_roundtrip[of ex_store_empty 1 "''cat''" "[]"]
      parse_render_roundtrip[of ex_store_empty 1 "[]" "[]"]
      parse_render_roundtrip[of ex_store_braces 1 "[]" "[2]"]
    by (auto simp add: c backslash_def simp del: texts_Cons)
qed

section \<open>Writing a character into a region\<close>

text \<open>
  Claim C3. \<^verbatim>\<open>write(cursor, ch)\<close> with a character other than the dollar sign, in the
  state \<open>(s0, c0)\<close> that the deletion of a pending selection leaves, with the cursor in the
  region between the runs \<open>xs\<close> and \<open>ys\<close>: with no run on the left of the cursor a new run
  that holds \<open>ch\<close> becomes the first child of the region and the left neighbour of the
  cursor; otherwise \<open>ch\<close> is appended to the run on the left of the cursor. In both
  cases the text of the region afterwards is the text on the left of the cursor, \<open>ch\<close>,
  and the text on the right of the cursor, and \<open>ch\<close> is announced.
\<close>

theorem TextBlock_write_char:
  assumes ds: "deleteSelection s c = Inr (s0, c0)"
    and ca: "cursor_at s0 b c0 xs ys"
    and k: "\<forall>l. last_or None xs = Some l \<longrightarrow> kind (heap s0 l) = TextPiece"
    and ch: "ch \<noteq> ''$''"
  shows "\<exists>s' zs. TextBlock_write b ch s c =
             Inr (s', (if xs = [] then c0\<lparr>cL := Some (fresh s0)\<rparr> else c0)
                      \<lparr>aria := aria c0 @ [Alerted ch]\<rparr>) \<and>
           block_children s' b zs \<and>
           zs = (if xs = [] then fresh s0 # ys else xs @ ys) \<and>
           (xs = [] \<longrightarrow> textStr (heap s' (fresh s0)) = ch \<and> kind (heap s' (fresh s0)) = TextPiece) \<and>
           (xs \<noteq> [] \<longrightarrow> textStr (heap s' (last xs)) = textStr (heap s0 (last xs)) @ ch) \<and>
           (\<forall>x. x \<noteq> fresh s0 \<and> last_or None xs \<noteq> Some x \<longrightarrow>
                textStr (heap s' x) = textStr (heap s0 x)) \<and>
           textContents s' b = Some (Inr (texts s0 xs @ ch @ texts s0 ys))"
proof (cases xs rule: rev_cases)
  case Nil
  let ?n = "fresh s0"
  let ?s' = "adopt ?n b None (first_or None ys) (snd (new_node TextPiece ch [] s0))"
  have b: "block_children s0 b ([] @ ys)" and cb: "cparent c0 = b"
    and cl: "cL c0 = None" and cr: "cR c0 = first_or None ys"
    using ca Nil by (auto simp: cursor_at_def)
  have b1: "block_children ?s' b ([] @ ?n # ys)"
    using adopt_new_children[OF b, of TextPiece ch "[]"] by simp
  have np: "?n \<notin> set ys"
    using block_children_fresh[OF b] by auto
  have w: "TextBlock_write b ch s c = Inr (?s', c0\<lparr>cL := Some ?n, aria := aria c0 @ [Alerted ch]\<rparr>)"
    using ds ch cl cr cb
    by (simp add: TextBlock_write_def createLeftOf_def createDir_def split_beta Let_def
        aria_queue_def)
  have "texts ?s' ys = texts s0 ys"
    using np by (auto intro!: texts_cong)
  then have "textContents ?s' b = Some (Inr (texts s0 xs @ ch @ texts s0 ys))"
    using textContents_block[OF b1] Nil by simp
  then show ?thesis
    using w b1 Nil by auto
next
  case (snoc xs0 l)
  let ?s' = "appendText l ch s0"
  have b: "block_children s0 b (xs @ ys)" and cl: "cL c0 = Some l"
    using ca snoc by (auto simp: cursor_at_def)
  have kl: "kind (heap s0 l) = TextPiece"
    using k snoc by simp
  have b1: "block_children ?s' b (xs @ ys)"
    unfolding appendText_def using b by (rule block_children_upd_textStr)
  have w: "TextBlock_write b ch s c = Inr (?s', c0\<lparr>aria := aria c0 @ [Alerted ch]\<rparr>)"
    using ds ch cl kl by (simp add: TextBlock_write_def aria_queue_def)
  have ld: "l \<notin> set xs0" "l \<notin> set ys"
    using b snoc by (auto simp: block_children_def)
  have "texts ?s' xs0 = texts s0 xs0" "texts ?s' ys = texts s0 ys"
    using ld by (auto intro!: texts_cong simp: appendText_def)
  then have "textContents ?s' b = Some (Inr (texts s0 xs @ ch @ texts s0 ys))"
    using textContents_block[OF b1] snoc by (simp add: appendText_def)
  then show ?thesis
    using w b1 snoc by (auto simp: appendText_def)
qed

theorem TextBlock_write_char_witness:
  "deleteSelection ex_store3 (ex_cursor 1 (Some 3) (Some 4)) =
     Inr (ex_store3, ex_cursor 1 (Some 3) (Some 4)) \<and>
   cursor_at ex_store3 1 (ex_cursor 1 (Some 3) (Some 4)) ([2] @ [3]) [4] \<and>
   (\<exists>s'. TextBlock_write 1 ''p'' ex_store3 (ex_cursor 1 (Some 3) (Some 4)) =
            Inr (s', (ex_cursor 1 (Some 3) (Some 4))\<lparr>aria := [Alerted ''p'']\<rparr>) \<and>
          block_children s' 1 [2, 3, 4] \<and> textStr (heap s' 3) = ''ellp'' \<and>
          textContents s' 1 = Some (Inr ''hellpo'')) \<and>
   cursor_at ex_store_empty 1 (ex_cursor 1 None None) [] [] \<and>
   (\<exists>s'. TextBlock_write 1 ''p'' ex_store_empty (ex_cursor 1 None None) =
            Inr (s', (ex_cursor 1 (Some 2) None)\<lparr>aria := [Alerted ''p'']\<rparr>) \<and>
          block_children s' 1 [2] \<and> textStr (heap s' 2) = ''p'' \<and>
          textContents s' 1 = Some (Inr ''p''))"
proof -
  have d1: "deleteSelection ex_store3 (ex_cursor 1 (Some 3) (Some 4)) =
     Inr (ex_store3, ex_cursor 1 (Some 3) (Some 4))"
    and d2: "deleteSelection ex_store_empty (ex_cursor 1 None None) =
     Inr (ex_store_empty, ex_cursor 1 None None)"
    by (simp_all add: deleteSelection_def ex_cursor_def)
  have k1: "\<forall>l. last_or None ([2] @ [3::nat]) = Some l \<longrightarrow> kind (heap ex_store3 l) = TextPiece"
    and k2: "\<forall>l. last_or None ([]::nat list) = Some l \<longrightarrow> kind (heap ex_store_empty l) = TextPiece"
    by (simp_all add: ex_store3_def ex_node_def)
  have t: "textStr (heap ex_store3 2) = ''h''" "textStr (heap ex_store3 3) = ''ell''"
    "textStr (heap ex_store3 4) = ''o''" "fresh ex_store_empty = 2"
    by (simp_all add: ex_store3_def ex_store_empty_def ex_node_def)
  show ?thesis
    using d1 ex_store3_cursor_at(2) ex_store_empty_cursor_at
      TextBlock_write_char[OF d1 ex_store3_cursor_at(2) k1, of "''p''"]
      TextBlock_write_char[OF d2 ex_store_empty_cursor_at k2, of "''p''"]
    by (auto simp add: t ex_cursor_def)
qed

section \<open>The dollar sign in an empty region\<close>




text \<open>
  The same children result when the region loses the focus as soon as the cursor has left
  it, before the symbol is created: \<^verbatim>\<open>blur\<close> then links the left pointer of the cursor,
  which is the region, to the left sibling of the region.
\<close>

lemma TextBlock_blur_then_dollar:
  assumes p: "block_children s0 p (us @ b # vs)" and e: "block_children s0 b []"
  shows "\<exists>c1 s1 c2. insRightOf b s0 c0 = Inr c1 \<and>
           TextBlock_blur b rendered s0 c1 = Some (Inr (rendered, s1, c2)) \<and>
           block_children s1 p (us @ vs) \<and>
           c2 = c0\<lparr>cparent := p, cL := last_or None us, cR := first_or None vs\<rparr> \<and>
           block_children
             (fst (createLeftOf (fresh s1) (snd (new_node VanillaSymbol [] dollar_ctrlSeq s1)) c2))
             p (us @ fresh s1 # vs)"
proof -
  have links: "parent (heap s0 b) = Some p" "sibR (heap s0 b) = first_or None vs"
    using p by (auto simp: block_children_def seg_append)
  let ?c1 = "c0\<lparr>cparent := p, cR := first_or None vs, cL := Some b\<rparr>"
  have i: "insRightOf b s0 c0 = Inr ?c1"
    using links by (simp add: insRightOf_def insDirOf_def)
  from blur_empty[OF p e, of rendered ?c1] obtain s1 where
    s1: "TextBlock_blur b rendered s0 ?c1 =
           Some (Inr (rendered, s1, ?c1\<lparr>cL := last_or None us\<rparr>))"
        "block_children s1 p (us @ vs)"
    by auto
  have "block_children
          (adopt (fresh s1) p (last_or None us) (first_or None vs)
             (snd (new_node VanillaSymbol [] dollar_ctrlSeq s1))) p (us @ fresh s1 # vs)"
    using adopt_new_children[OF s1(2)] .
  then show ?thesis
    using i s1 by (simp add: createLeftOf_def createDir_def)
qed

section \<open>The dollar sign inside a region\<close>

text \<open>
  \<^verbatim>\<open>write(cursor, '$')\<close> with runs on both sides of the cursor: the new region takes the
  leftmost run \<open>l\<close> of the region, whatever the number of runs on the left of the cursor,
  and is placed before the region; the cursor is put between the two. The runs \<open>xs\<close>
  between \<open>l\<close> and the cursor stay in the region.
\<close>

lemma TextBlock_write_dollar_split:
  assumes ds: "deleteSelection s c = Inr (s0, c0)"
    and p: "block_children s0 p (us @ b # vs)"
    and ca: "cursor_at s0 b c0 (l # xs) ys" and ys: "ys \<noteq> []"
  shows "\<exists>s'. TextBlock_write b ''$'' s c =
            Inr (s', c0\<lparr>cparent := p, cL := Some (fresh s0), cR := Some b,
                       aria := aria c0 @ [Alerted ''$'']\<rparr>) \<and>
           block_children s' p (us @ fresh s0 # b # vs) \<and>
           block_children s' (fresh s0) [l] \<and>
           block_children s' b (xs @ ys) \<and>
           kind (heap s' (fresh s0)) = TextBlock \<and> ctrlSeq (heap s' (fresh s0)) = text_ctrlSeq \<and>
           (\<forall>x. x \<noteq> fresh s0 \<longrightarrow> textStr (heap s' x) = textStr (heap s0 x) \<and>
                kind (heap s' x) = kind (heap s0 x))"
proof -
  let ?lb = "fresh s0"
  let ?s1 = "snd (new_node TextBlock [] text_ctrlSeq s0)"
  have bc: "block_children s0 b ([] @ l # (xs @ ys))" and cl: "cL c0 \<noteq> None" and cr: "cR c0 \<noteq> None"
    using ca ys by (auto simp: cursor_at_def first_or_hd)
  have pb: "p \<noteq> b"
    using p by (auto simp: block_children_def)
  have dj: "set (us @ b # vs) \<inter> set (l # xs @ ys) = {}"
    using block_children_disjoint[OF p _ pb, of "l # xs @ ys"] bc by simp
  have fr: "?lb \<noteq> b" "?lb \<noteq> p" "?lb \<noteq> l" "?lb \<notin> set (us @ b # vs)" "?lb \<notin> set (xs @ ys)"
    using block_children_fresh[OF p] block_children_fresh[OF bc] by auto
  have p1: "block_children ?s1 p (us @ b # vs)" and b1: "block_children ?s1 b ([] @ l # (xs @ ys))"
    using p bc by (auto intro: block_children_new_node)
  have lb1: "block_children ?s1 ?lb []"
    by (simp add: block_children_def heap_new_node)
  from disown_children[OF b1] obtain s2 where
    s2: "disown l ?s1 = Inr s2" "block_children s2 b ([] @ (xs @ ys))" "fresh s2 = fresh ?s1"
        "\<forall>x. textStr (heap s2 x) = textStr (heap ?s1 x) \<and> kind (heap s2 x) = kind (heap ?s1 x) \<and>
          ctrlSeq (heap s2 x) = ctrlSeq (heap ?s1 x) \<and>
          anticursorPosition (heap s2 x) = anticursorPosition (heap ?s1 x)"
    by blast
  have p2: "block_children s2 p (us @ b # vs)"
    using disown_other_block[OF b1 p1 _ s2(1)] pb by auto
  have lb2: "block_children s2 ?lb ([] @ [])"
    using disown_other_block[OF b1 lb1 _ s2(1)] fr by auto
  let ?s3 = "adopt l ?lb None None s2"
  have l2: "l \<noteq> ?lb" "l < fresh s2" "l \<notin> set (xs @ ys)" "l \<notin> set (us @ b # vs)"
    using fr bc dj s2(3) by (auto simp: block_children_def)
  have lb3: "block_children ?s3 ?lb ([] @ l # [])"
    using adopt_children[OF lb2, of l] l2 by simp
  have b3: "block_children ?s3 b (xs @ ys)"
    using s2(2) fr l2 by (intro adopt_other_block) auto
  have p3: "block_children ?s3 p (us @ b # vs)"
    using p2 fr l2 by (intro adopt_other_block) auto
  have p3': "block_children ?s3 p (us @ (b # vs))"
    using p3 by simp
  have links: "parent (heap ?s3 b) = Some p" "sibL (heap ?s3 b) = last_or None us"
    using p3 by (auto simp: block_children_def seg_append)
  let ?s4 = "adopt ?lb p (last_or None us) (Some b) ?s3"
  have lbf: "?lb < fresh ?s3"
    using s2(3) by simp
  have p4: "block_children ?s4 p (us @ ?lb # b # vs)"
    using adopt_children[OF p3', of ?lb] fr lbf by simp
  have lo: "last_or None us = Some x \<Longrightarrow> x \<in> set us" for x
    by (cases us rule: rev_cases) auto
  have b4: "block_children ?s4 b (xs @ ys)"
    using b3
  proof (rule adopt_other_block)
    show "b \<noteq> p" using pb by simp
    show "?lb \<notin> set (xs @ ys)" using fr by simp
    show "x \<notin> set (xs @ ys)" if "last_or None us = Some x" for x
      using lo[OF that] dj by auto
    show "r \<notin> set (xs @ ys)" if "Some b = Some r" for r
      using that b3 by (auto simp: block_children_def)
  qed
  have lb4: "block_children ?s4 ?lb [l]"
  proof (rule adopt_other_block)
    show "block_children ?s3 ?lb [l]" using lb3 by simp
    show "?lb \<noteq> p" using fr by simp
    show "?lb \<notin> set [l]" using fr by simp
    show "x \<notin> set [l]" if "last_or None us = Some x" for x
      using lo[OF that] dj by auto
    show "r \<notin> set [l]" if "Some b = Some r" for r
      using that bc by (auto simp: block_children_def)
  qed
  have el: "endL (heap ?s1 b) = Some l"
    using b1 by (simp add: block_children_def)
  have ne: "\<not> isEmpty s0 b"
    using bc by (simp add: isEmpty_def block_children_def)
  obtain cl' cr' where clr: "cL c0 = Some cl'" "cR c0 = Some cr'"
    using cl cr by auto
  have w: "TextBlock_write b ''$'' s c =
             Inr (?s4, c0\<lparr>cparent := p, cL := Some ?lb, cR := Some b,
                        aria := aria c0 @ [Alerted ''$'']\<rparr>)"
    using ds ne clr el s2(1) links
    by (simp add: TextBlock_write_def insLeftOf_def insDirOf_def createLeftOf_def createDir_def
        split_beta Let_def aria_queue_def)
  have data: "\<forall>x. x \<noteq> ?lb \<longrightarrow> textStr (heap ?s4 x) = textStr (heap s0 x) \<and>
                kind (heap ?s4 x) = kind (heap s0 x)"
    using s2(4) by (simp add: heap_new_node)
  have kn: "kind (heap ?s4 ?lb) = TextBlock" "ctrlSeq (heap ?s4 ?lb) = text_ctrlSeq"
    using s2(4) by (simp_all add: heap_new_node)
  show ?thesis
    using w p4 lb4 b4 kn data by blast
qed


text \<open>
  Claim C2 says that all the content on the left of the cursor goes to the new region.
  The code moves the leftmost run only, and \<^verbatim>\<open>seek\<close> leaves regions with a run between the
  leftmost run and the cursor. In the example the region \<open>1\<close> holds \<open>hello\<close>, a drag has
  started at offset \<open>1\<close> and \<^verbatim>\<open>seek\<close> is called at offset \<open>4\<close>: it leaves the runs \<open>h\<close>,
  \<open>ell\<close> and \<open>o\<close> and the cursor between \<open>ell\<close> and \<open>o\<close>, with \<open>hell\<close> on its left. With no
  selection pending, the write of the dollar sign then gives the new region \<open>8\<close> the run \<open>h\<close>
  only, and the region \<open>1\<close>, now on the right of the cursor, holds \<open>ello\<close>.
\<close>

theorem TextBlock_write_dollar_after_seek:
  "\<exists>s1 c1 s2 c2.
     TextBlock_seek 1 [DomText ''h'', DomText ''ell'', DomText ''o''] 1 4 ex_displ
       ex_store3_drag ex_cursor_drag = Some (Inr (s1, c1)) \<and>
     cursor_at s1 1 c1 [5, 7] [6] \<and> selection c1 = None \<and>
     texts s1 [5, 7] = ''hell'' \<and> texts s1 [6] = ''o'' \<and>
     TextBlock_write 1 ''$'' s1 c1 = Inr (s2, c2) \<and>
     block_children s2 0 [8, 1] \<and> cparent c2 = 0 \<and> cL c2 = Some 8 \<and> cR c2 = Some 1 \<and>
     textContents s2 8 = Some (Inr ''h'') \<and> textContents s2 1 = Some (Inr ''ello'')"
proof -
  from TextBlock_seek_three_runs obtain s1 c1 where
    s1: "TextBlock_seek 1 [DomText ''h'', DomText ''ell'', DomText ''o''] 1 4 ex_displ
              ex_store3_drag ex_cursor_drag = Some (Inr (s1, c1))"
        "block_children s1 0 [1]" "block_children s1 1 [5, 7, 6]"
        "cparent c1 = 1" "cL c1 = Some 7" "cR c1 = Some 6"
        "textStr (heap s1 5) = ''h''" "textStr (heap s1 7) = ''ell''" "textStr (heap s1 6) = ''o''"
        "selection c1 = None" "fresh s1 = 8"
    by blast
  have ds: "deleteSelection s1 c1 = Inr (s1, c1)"
    using s1(10) by (simp add: deleteSelection_def)
  have p: "block_children s1 0 ([] @ 1 # [])"
    using s1(2) by simp
  have ca: "cursor_at s1 1 c1 (5 # [7]) [6]"
    using s1(3,4,5,6) by (simp add: cursor_at_def)
  from TextBlock_write_dollar_split[OF ds p ca] obtain s2 where
    s2: "TextBlock_write 1 ''$'' s1 c1 =
            Inr (s2, c1\<lparr>cparent := 0, cL := Some (fresh s1), cR := Some 1,
                       aria := aria c1 @ [Alerted ''$'']\<rparr>)"
        "block_children s2 0 [fresh s1, 1]" "block_children s2 (fresh s1) [5]"
        "block_children s2 1 [7, 6]"
        "\<forall>x. x \<noteq> fresh s1 \<longrightarrow> textStr (heap s2 x) = textStr (heap s1 x)"
    by auto
  have "textContents s2 8 = Some (Inr ''h'')" "textContents s2 1 = Some (Inr ''ello'')"
    using textContents_block[OF s2(3)] textContents_block[OF s2(4)] s2(5) s1(7,8,9,11)
    by simp_all
  then show ?thesis
    using s1 s2(1,2) ca by (auto simp: cursor_at_def)
qed

section \<open>Fusing the runs of a region\<close>

text \<open>
  Claim C9. \<^verbatim>\<open>TextBlockFuseChildren\<close> on a region whose rendered container is empty returns
  nothing and leaves the tree as it is. When the container after \<^verbatim>\<open>normalize()\<close> is not
  empty and is not one single text node, the assertion fails and nothing is returned.
  When the container mirrors the runs of the region, one text node for each run with the
  text of the run as its data, and the region has text (as it has when it has a run, no
  run being empty), the assertion holds: the result is a new run whose text is the merged
  text, and it is the only child of the region.
\<close>

theorem TextBlockFuseChildren_spec:
  "(rendered = [] \<longrightarrow> TextBlockFuseChildren b rendered s = Inr ([], s, None)) \<and>
   (normalize rendered \<noteq> [] \<and> (\<forall>d. normalize rendered \<noteq> [DomText d]) \<longrightarrow>
      TextBlockFuseChildren b rendered s = Inl PrayFailed) \<and>
   (block_children s b xs \<and> rendered = map (\<lambda>x. DomText (textStr (heap s x))) xs \<and>
    texts s xs \<noteq> [] \<longrightarrow>
      (\<exists>s'. TextBlockFuseChildren b rendered s =
               Inr ([DomText (texts s xs)], s', Some (fresh s)) \<and>
             block_children s' b [fresh s] \<and>
             textStr (heap s' (fresh s)) = texts s xs \<and>
             kind (heap s' (fresh s)) = TextPiece))"
proof (intro conjI impI)
  assume "rendered = []"
  then show "TextBlockFuseChildren b rendered s = Inr ([], s, None)"
    by (simp add: TextBlockFuseChildren_def)
next
  assume "normalize rendered \<noteq> [] \<and> (\<forall>d. normalize rendered \<noteq> [DomText d])"
  then show "TextBlockFuseChildren b rendered s = Inl PrayFailed"
    by (auto simp: TextBlockFuseChildren_def Let_def split: list.splits dom_node.splits)
next
  assume "block_children s b xs \<and> rendered = map (\<lambda>x. DomText (textStr (heap s x))) xs \<and>
    texts s xs \<noteq> []"
  then show "\<exists>s'. TextBlockFuseChildren b rendered s =
               Inr ([DomText (texts s xs)], s', Some (fresh s)) \<and>
             block_children s' b [fresh s] \<and>
             textStr (heap s' (fresh s)) = texts s xs \<and>
             kind (heap s' (fresh s)) = TextPiece"
    using TextBlockFuseChildren_mirror[of s b xs rendered] by blast
qed

theorem TextBlockFuseChildren_spec_witness:
  "TextBlockFuseChildren 1 [] ex_store3 = Inr ([], ex_store3, None) \<and>
   normalize [DomText ''h'', DomElement, DomText ''o''] \<noteq> [] \<and>
   TextBlockFuseChildren 1 [DomText ''h'', DomElement, DomText ''o''] ex_store3 = Inl PrayFailed \<and>
   block_children ex_store3 1 [2, 3, 4] \<and>
   (\<exists>s'. TextBlockFuseChildren 1 [DomText ''h'', DomText ''ell'', DomText ''o''] ex_store3 =
            Inr ([DomText ''hello''], s', Some 5) \<and>
          block_children s' 1 [5] \<and> textStr (heap s' 5) = ''hello'')"
proof -
  have b: "block_children ex_store3 1 [2, 3, 4]"
    using ex_store3_children by simp
  have t: "textStr (heap ex_store3 2) = ''h''" "textStr (heap ex_store3 3) = ''ell''"
    "textStr (heap ex_store3 4) = ''o''" "fresh ex_store3 = 5"
    by (simp_all add: ex_store3_def ex_node_def)
  show ?thesis
    using b TextBlockFuseChildren_spec[of "[]" 1 ex_store3 "[]"]
      TextBlockFuseChildren_spec[of "[DomText ''h'', DomElement, DomText ''o'']" 1 ex_store3 "[]"]
      TextBlockFuseChildren_spec[of "[DomText ''h'', DomText ''ell'', DomText ''o'']" 1 ex_store3 "[2, 3, 4]"]
    by (auto simp add: t)
qed

section \<open>Seeking and the anticursor\<close>

text \<open>
  Claim C1, as amended. \<^verbatim>\<open>seek\<close> on a region whose rendered container mirrors its runs
  and has text, whatever the estimate and the measured displacements: it returns, with
  the cursor in the region between the runs \<open>ys\<close> and \<open>zs\<close> and the text of the region
  unchanged. With no anticursor, the region caches the offset of the cursor, the length of
  the text on its left. With an anticursor in this region and a cached offset \<open>k\<close> within
  the text of the region, the anticursor afterwards is the boundary between the runs \<open>ps\<close>
  and \<open>qs\<close> of the region, the text on the left of which has the length \<open>k\<close>: the cached
  offset, before and after any split; when \<open>k\<close> is the offset of the cursor, the anticursor
  is the position of the cursor. (On a region with no rendered content \<^verbatim>\<open>seek\<close> returns at
  once; see the counterexample below.)
\<close>

theorem TextBlock_seek_anticursor:
  assumes b: "block_children s b xs"
    and m: "rendered = map (\<lambda>x. DomText (textStr (heap s x))) xs"
    and t: "texts s xs \<noteq> []"
  shows "(anticursor c = None \<longrightarrow>
            (\<exists>s' c' ys zs. TextBlock_seek b rendered rects approxPosition displ_of s c =
                              Some (Inr (s', c')) \<and>
               cursor_at s' b c' ys zs \<and> texts s' (ys @ zs) = texts s xs \<and>
               anticursorPosition (heap s' b) = Some (length (texts s' ys)) \<and>
               anticursor c' = None)) \<and>
         (\<forall>a k. anticursor c = Some a \<and> pparent a = b \<and>
                 anticursorPosition (heap s b) = Some k \<and> k \<le> length (texts s xs) \<longrightarrow>
            (\<exists>s' c' ys zs ps qs. TextBlock_seek b rendered rects approxPosition displ_of s c =
                                    Some (Inr (s', c')) \<and>
               cursor_at s' b c' ys zs \<and> ps @ qs = ys @ zs \<and>
               texts s' (ys @ zs) = texts s xs \<and>
               anticursor c' = Some \<lparr>pparent = b, pL = last_or None ps, pR = first_or None qs\<rparr> \<and>
               length (texts s' ps) = k \<and>
               (k = length (texts s' ys) \<longrightarrow> ps = ys \<and> qs = zs)))"
proof -
  from TextBlock_seek_two_runs[OF b m t, of rects approxPosition displ_of c] obtain s4 c4 where
    s4: "TextBlock_seek b rendered rects approxPosition displ_of s c = Some (seek_anticursor b s4 c4)"
        "two_runs s4 b c4" "region_text s4 c4 = texts s xs" "anticursor c4 = anticursor c"
        "anticursorPosition (heap s4 b) = anticursorPosition (heap s b)"
    by blast
  show ?thesis
  proof (intro conjI impI allI)
    assume n: "anticursor c = None"
    let ?s' = "upd b (anticursorPosition_update (\<lambda>_. Some (cursor_offset s4 c4))) s4"
    let ?ys = "opt_list (cL c4)" and ?zs = "opt_list (cR c4)"
    have sa: "seek_anticursor b s4 c4 = Inr (?s', c4)"
      using seek_anticursor_none[OF s4(2)] n s4(4) by simp
    have ca: "cursor_at ?s' b c4 ?ys ?zs"
      using s4(2) block_children_upd_anticursorPosition[of s4 b "?ys @ ?zs" b]
      by (simp add: two_runs_def cursor_at_def)
    have tx: "texts ?s' zs = texts s4 zs" for zs
      by (intro texts_cong) simp
    have "anticursorPosition (heap ?s' b) = Some (length (texts ?s' ?ys))"
      using tx[of ?ys] by (simp add: cursor_offset_def)
    then show "\<exists>s' c' ys zs. TextBlock_seek b rendered rects approxPosition displ_of s c =
                              Some (Inr (s', c')) \<and>
               cursor_at s' b c' ys zs \<and> texts s' (ys @ zs) = texts s xs \<and>
               anticursorPosition (heap s' b) = Some (length (texts s' ys)) \<and>
               anticursor c' = None"
      using s4(1,3,4) sa ca tx[of "?ys @ ?zs"] n
      by (intro exI[of _ ?s'] exI[of _ c4] exI[of _ ?ys] exI[of _ ?zs])
         (simp add: region_text_def)
  next
    fix a k
    assume h: "anticursor c = Some a \<and> pparent a = b \<and>
                 anticursorPosition (heap s b) = Some k \<and> k \<le> length (texts s xs)"
    then have "anticursor c4 = Some a" "pparent a = b" "anticursorPosition (heap s4 b) = Some k"
      "k \<le> length (region_text s4 c4)"
      using s4 by auto
    from seek_anticursor_some[OF s4(2) this] obtain s' c' ys zs ps qs where
      r: "seek_anticursor b s4 c4 = Inr (s', c')" "cursor_at s' b c' ys zs" "ps @ qs = ys @ zs"
         "texts s' (ys @ zs) = region_text s4 c4" "length (texts s' ys) = cursor_offset s4 c4"
         "anticursor c' = Some \<lparr>pparent = b, pL = last_or None ps, pR = first_or None qs\<rparr>"
         "length (texts s' ps) = k"
         "k = cursor_offset s4 c4 \<longrightarrow> s' = s4 \<and> ps = ys \<and> qs = zs"
      by blast
    show "\<exists>s' c' ys zs ps qs. TextBlock_seek b rendered rects approxPosition displ_of s c =
                                    Some (Inr (s', c')) \<and>
               cursor_at s' b c' ys zs \<and> ps @ qs = ys @ zs \<and>
               texts s' (ys @ zs) = texts s xs \<and>
               anticursor c' = Some \<lparr>pparent = b, pL = last_or None ps, pR = first_or None qs\<rparr> \<and>
               length (texts s' ps) = k \<and>
               (k = length (texts s' ys) \<longrightarrow> ps = ys \<and> qs = zs)"
      using s4(1,3) r
      by (intro exI[of _ s'] exI[of _ c'] exI[of _ ys] exI[of _ zs] exI[of _ ps] exI[of _ qs]) simp
  qed
qed


theorem TextBlock_seek_anticursor_witness:
  "block_children ex_store3_drag 1 [2, 3, 4] \<and>
   [DomText ''h'', DomText ''ell'', DomText ''o''] =
     map (\<lambda>x. DomText (textStr (heap ex_store3_drag x))) [2, 3, 4] \<and>
   texts ex_store3_drag [2, 3, 4] \<noteq> [] \<and>
   (\<exists>s' c' ys zs. TextBlock_seek 1 [DomText ''h'', DomText ''ell'', DomText ''o''] 1 4 ex_displ
                     ex_store3_drag (ex_cursor 1 (Some 2) (Some 3)) = Some (Inr (s', c')) \<and>
      cursor_at s' 1 c' ys zs \<and> texts s' (ys @ zs) = ''hello'' \<and>
      anticursorPosition (heap s' 1) = Some (length (texts s' ys))) \<and>
   (\<exists>s' c' ys zs ps qs. TextBlock_seek 1 [DomText ''h'', DomText ''ell'', DomText ''o''] 1 4 ex_displ
                     ex_store3_drag ex_cursor_drag = Some (Inr (s', c')) \<and>
      cursor_at s' 1 c' ys zs \<and> ps @ qs = ys @ zs \<and> texts s' (ys @ zs) = ''hello'' \<and>
      anticursor c' = Some \<lparr>pparent = 1, pL = last_or None ps, pR = first_or None qs\<rparr> \<and>
      length (texts s' ps) = 1)"
proof -
  have m: "[DomText ''h'', DomText ''ell'', DomText ''o''] =
     map (\<lambda>x. DomText (textStr (heap ex_store3_drag x))) [2, 3, 4]"
    using ex_store3_drag_data(1) by simp
  have t: "texts ex_store3_drag [2, 3, 4] \<noteq> []"
    using ex_store3_drag_data(2) by simp
  have a: "anticursor (ex_cursor 1 (Some 2) (Some 3)) = None"
    "anticursor ex_cursor_drag = Some \<lparr>pparent = 1, pL = Some 2, pR = Some 3\<rparr>"
    by (simp_all add: ex_cursor_def ex_cursor_drag_def)
  note th1 = TextBlock_seek_anticursor[OF ex_store3_drag_children m t,
      of "ex_cursor 1 (Some 2) (Some 3)" 1 4 ex_displ]
  note th2 = TextBlock_seek_anticursor[OF ex_store3_drag_children m t,
      of ex_cursor_drag 1 4 ex_displ, THEN conjunct2, rule_format,
      of "\<lparr>pparent = 1, pL = Some 2, pR = Some 3\<rparr>" 1]
  have r1: "\<exists>s' c' ys zs. TextBlock_seek 1 [DomText ''h'', DomText ''ell'', DomText ''o''] 1 4 ex_displ
                     ex_store3_drag (ex_cursor 1 (Some 2) (Some 3)) = Some (Inr (s', c')) \<and>
      cursor_at s' 1 c' ys zs \<and> texts s' (ys @ zs) = ''hello'' \<and>
      anticursorPosition (heap s' 1) = Some (length (texts s' ys))"
    using th1 a(1) ex_store3_drag_data(2) by (simp del: texts_Cons texts_append) blast
  have r2: "\<exists>s' c' ys zs ps qs. TextBlock_seek 1 [DomText ''h'', DomText ''ell'', DomText ''o''] 1 4 ex_displ
                     ex_store3_drag ex_cursor_drag = Some (Inr (s', c')) \<and>
      cursor_at s' 1 c' ys zs \<and> ps @ qs = ys @ zs \<and> texts s' (ys @ zs) = ''hello'' \<and>
      anticursor c' = Some \<lparr>pparent = 1, pL = last_or None ps, pR = first_or None qs\<rparr> \<and>
      length (texts s' ps) = 1"
    using th2 a(2) ex_store3_drag_data(2,3) by (simp del: texts_Cons texts_append) blast
  show ?thesis
    using ex_store3_drag_children m t r1 r2 by blast
qed

text \<open>
  The claim says that with no anticursor \<^verbatim>\<open>seek\<close> caches the offset of the cursor, \<open>0\<close> at
  the left end. On the empty region of the example, with the cursor in it, \<^verbatim>\<open>seek\<close> returns
  at \<^verbatim>\<open>if (!textPc) return\<close> and the region has cached no offset.
\<close>

theorem TextBlock_seek_empty_counterexample:
  "TextBlock_seek 1 [] 1 0 ex_displ ex_store_empty (ex_cursor 1 None None) =
     Some (Inr (ex_store_empty, ex_cursor 1 None None)) \<and>
   anticursor (ex_cursor 1 None None) = None \<and>
   cursor_at ex_store_empty 1 (ex_cursor 1 None None) [] [] \<and>
   anticursorPosition (heap ex_store_empty 1) = None"
  using ex_store_empty_cursor_at
  by (simp add: TextBlock_seek_def TextBlockFuseChildren_def ex_cursor_def ex_store_empty_def
      ex_node_def)


section \<open>The dollar sign in the math command of a text field\<close>

text \<open>
  The \<^verbatim>\<open>write\<close> of the inner block \<open>blk\<close> of a math command \<open>cmd\<close>, a child of \<open>p\<close>. A
  character that is not the dollar sign, and a dollar sign with a neighbour on both sides
  of the cursor, go to the ordinary \<^verbatim>\<open>write\<close> of a math block. A dollar sign at the right or
  left end of a block that is not empty puts the cursor in \<open>p\<close>, on that side of \<open>cmd\<close>, and
  the tree is as it was.
\<close>

lemma RootMathCommand_block_write_other:
  "ch \<noteq> ''$'' \<Longrightarrow> RootMathCommand_block_write mathBlockWrite blk ch s c = mathBlockWrite blk ch s c"
  "\<not> isEmpty s blk \<Longrightarrow> cL c \<noteq> None \<Longrightarrow> cR c \<noteq> None \<Longrightarrow>
     RootMathCommand_block_write mathBlockWrite blk ''$'' s c = mathBlockWrite blk ''$'' s c"
  "\<not> isEmpty s blk \<Longrightarrow> cR c = None \<Longrightarrow> parent (heap s blk) = Some cmd \<Longrightarrow>
     parent (heap s cmd) = Some p \<Longrightarrow>
     RootMathCommand_block_write mathBlockWrite blk ''$'' s c =
       Some (Inr (s, c\<lparr>cparent := p, cL := Some cmd, cR := sibR (heap s cmd)\<rparr>))"
  "\<not> isEmpty s blk \<Longrightarrow> cR c \<noteq> None \<Longrightarrow> cL c = None \<Longrightarrow> parent (heap s blk) = Some cmd \<Longrightarrow>
     parent (heap s cmd) = Some p \<Longrightarrow>
     RootMathCommand_block_write mathBlockWrite blk ''$'' s c =
       Some (Inr (s, c\<lparr>cparent := p, cL := sibL (heap s cmd), cR := Some cmd\<rparr>))"
  by (auto simp: RootMathCommand_block_write_def insRightOf_def insLeftOf_def insDirOf_def)

text \<open>
  In the empty block the cursor is put on the right of \<open>cmd\<close>, so that \<open>cmd\<close> is its left
  neighbour, and \<open>cmd\<close> is removed with no direction for the cursor to be relinked in: the
  symbol is then adopted with the removed \<open>cmd\<close> as its left neighbour.
\<close>

lemma RootMathCommand_block_write_empty:
  assumes "isEmpty s blk" and "parent (heap s blk) = Some cmd" and "parent (heap s cmd) = Some p"
    and "MathCommand_isEmpty s cmd = Some (Inr True)" and "disown cmd s = Inr s2"
  shows "RootMathCommand_block_write mathBlockWrite blk ''$'' s c =
           Some (Inr (adopt (fresh s2) p (Some cmd) (sibR (heap s cmd))
                        (snd (new_node VanillaSymbol [] dollar_ctrlSeq s2)),
                      c\<lparr>cparent := p, cL := Some (fresh s2), cR := sibR (heap s cmd)\<rparr>))"
  using assms
  by (simp add: RootMathCommand_block_write_def insRightOf_def insDirOf_def
      MathCommand_deleteTowards_def remove_node_def createLeftOf_def createDir_def
      split_beta Let_def)

text \<open>
  On the example the removal with the direction \<open>R\<close> leaves the cursor as the removal with no
  direction does, and the removal with the direction \<open>L\<close> links the left pointer of the
  cursor past the command: the symbol created there is the child of the root block.
\<close>

lemma MathCommand_deleteTowards_directions:
  "MathCommand_deleteTowards (Some R) 1 ex_store_math (ex_cursor 0 (Some 1) None) =
     MathCommand_deleteTowards None 1 ex_store_math (ex_cursor 0 (Some 1) None)"
  "\<exists>s2 c2. MathCommand_deleteTowards (Some L) 1 ex_store_math (ex_cursor 0 (Some 1) None) =
      Some (Inr (s2, c2)) \<and>
     block_children (fst (createLeftOf 3 (snd (new_node VanillaSymbol [] dollar_ctrlSeq s2)) c2)) 0 [3]"
  using ex_store_math_isEmpty ex_store_math_disown
   apply (simp add: MathCommand_deleteTowards_def remove_node_def ex_cursor_def)
   apply (simp add: upd_def ex_store_math_def ex_node_def)
  using ex_store_math_isEmpty ex_store_math_disown
  apply (simp add: MathCommand_deleteTowards_def remove_node_def)
  apply (simp add: createLeftOf_def createDir_def adopt_def new_node_def upd_def Let_def
      block_children_def ex_store_math_def ex_node_def ex_cursor_def)
  done

text \<open>
  Claim C8 says that a dollar sign written into the empty inner block removes the math
  command and inserts the symbol \<^verbatim>\<open>\$\<close> in the surrounding text at the cursor. In the example
  the root block \<open>0\<close> holds the command \<open>1\<close> with the empty inner block \<open>2\<close> and the cursor is
  in \<open>2\<close>. The write returns with the cursor in \<open>0\<close> and the new symbol \<open>3\<close> on its left, but
  the left sibling of \<open>3\<close> is the removed command \<open>1\<close> and the root block has \<open>3\<close> as its
  right end and no left end: the traversal of the children of the root block finds no
  child, and the symbol is not the child of the root block.
\<close>

theorem RootMathCommand_block_write_empty_dollar:
  "\<exists>s' c'. RootMathCommand_block_write mathBlockWrite 2 ''$'' ex_store_math (ex_cursor 2 None None) =
      Some (Inr (s', c')) \<and>
     cparent c' = 0 \<and> cL c' = Some 3 \<and> cR c' = None \<and>
     kind (heap s' 3) = VanillaSymbol \<and> ctrlSeq (heap s' 3) = dollar_ctrlSeq \<and>
     parent (heap s' 3) = Some 0 \<and> sibL (heap s' 3) = Some 1 \<and> sibR (heap s' 3) = None \<and>
     sibR (heap s' 1) = Some 3 \<and>
     endL (heap s' 0) = None \<and> endR (heap s' 0) = Some 3 \<and>
     foldChildren s' 0 [] (\<lambda>acc x. acc @ [x]) = Some (Inr []) \<and>
     \<not> block_children s' 0 [3]"
proof -
  have e: "isEmpty ex_store_math 2" "parent (heap ex_store_math 2) = Some 1"
    "parent (heap ex_store_math 1) = Some 0" "sibR (heap ex_store_math 1) = None"
    by (simp_all add: isEmpty_def ex_store_math_def ex_node_def)
  note w = RootMathCommand_block_write_empty[OF e(1,2,3) ex_store_math_isEmpty ex_store_math_disown,
      of mathBlockWrite "ex_cursor 2 None None"]
  show ?thesis
    unfolding w e(4)
    by (simp add: adopt_def new_node_def upd_def Let_def foldChildren_def block_children_def
        ex_store_math_def ex_node_def ex_cursor_def)
qed

section \<open>Deleting from a text run\<close>

text \<open>
  Claim C5. \<^verbatim>\<open>deleteTowards(dir)\<close> on a run \<open>p\<close> of a region with the children
  \<open>xs @ p # ys\<close>: a run of more than one character loses one character, its first when
  deleting rightward and its last when deleting leftward, and that character is announced;
  the tree is otherwise unchanged. A run of exactly one character is removed from the
  children of the region, the cursor's \<open>dir\<close> pointer becomes the former \<open>dir\<close> neighbour of
  the run, and the character is announced.
\<close>

theorem TextPiece_deleteTowards_spec:
  assumes b: "block_children s b (xs @ p # ys)"
  shows "(1 < length (textStr (heap s p)) \<longrightarrow>
            (\<exists>s'. TextPiece_deleteTowards p d s c =
                     Inr (s', c\<lparr>aria := aria c @
                            [Queued (if d = R then [hd (textStr (heap s p))]
                                     else [last (textStr (heap s p))])]\<rparr>) \<and>
                   block_children s' b (xs @ p # ys) \<and>
                   textStr (heap s' p) =
                     (if d = R then tl (textStr (heap s p)) else butlast (textStr (heap s p))) \<and>
                   (\<forall>x. x \<noteq> p \<longrightarrow> heap s' x = heap s x))) \<and>
         (length (textStr (heap s p)) = 1 \<longrightarrow>
            (\<exists>s'. TextPiece_deleteTowards p d s c =
                     Inr (s', (set_cdir d (if d = R then first_or None ys else last_or None xs) c)
                              \<lparr>aria := aria c @ [Queued (textStr (heap s p))]\<rparr>) \<and>
                   block_children s' b (xs @ ys) \<and>
                   (\<forall>x. textStr (heap s' x) = textStr (heap s x))))"
proof (intro conjI impI)
  assume "1 < length (textStr (heap s p))"
  then show "\<exists>s'. TextPiece_deleteTowards p d s c =
                     Inr (s', c\<lparr>aria := aria c @
                            [Queued (if d = R then [hd (textStr (heap s p))]
                                     else [last (textStr (heap s p))])]\<rparr>) \<and>
                   block_children s' b (xs @ p # ys) \<and>
                   textStr (heap s' p) =
                     (if d = R then tl (textStr (heap s p)) else butlast (textStr (heap s p))) \<and>
                   (\<forall>x. x \<noteq> p \<longrightarrow> heap s' x = heap s x)"
    using b by (cases d) (auto simp: TextPiece_deleteTowards_def aria_queue_def
        block_children_upd_textStr drop_Suc)
next
  assume one: "length (textStr (heap s p)) = 1"
  from disown_children[OF b] obtain s' where
    s': "disown p s = Inr s'" "block_children s' b (xs @ ys)"
        "\<forall>x. textStr (heap s' x) = textStr (heap s x)" "heap s' p = heap s p"
    by blast
  have links: "sibL (heap s p) = last_or None xs" "sibR (heap s p) = first_or None ys"
    using b by (auto simp: block_children_def seg_append)
  show "\<exists>s'. TextPiece_deleteTowards p d s c =
                Inr (s', (set_cdir d (if d = R then first_or None ys else last_or None xs) c)
                         \<lparr>aria := aria c @ [Queued (textStr (heap s p))]\<rparr>) \<and>
              block_children s' b (xs @ ys) \<and>
              (\<forall>x. textStr (heap s' x) = textStr (heap s x))"
    using one s' links
    by (cases d) (auto simp: TextPiece_deleteTowards_def remove_node_def aria_queue_def)
qed

theorem TextPiece_deleteTowards_spec_witness:
  "block_children ex_store3 1 ([2] @ 3 # [4]) \<and>
   (\<exists>s'. TextPiece_deleteTowards 3 R ex_store3 (ex_cursor 1 (Some 2) (Some 3)) =
            Inr (s', (ex_cursor 1 (Some 2) (Some 3))\<lparr>aria := [Queued ''e'']\<rparr>) \<and>
          block_children s' 1 [2, 3, 4] \<and> textStr (heap s' 3) = ''ll'') \<and>
   (\<exists>s'. TextPiece_deleteTowards 4 L ex_store3 (ex_cursor 1 (Some 4) None) =
            Inr (s', (ex_cursor 1 (Some 3) None)\<lparr>aria := [Queued ''o'']\<rparr>) \<and>
          block_children s' 1 [2, 3])"
proof -
  have h: "block_children ex_store3 1 ([2] @ 3 # [4])"
    by (rule ex_store3_children)
  have h4: "block_children ex_store3 1 ([2, 3] @ 4 # [])"
    using h by simp
  have t3: "textStr (heap ex_store3 3) = ''ell''" and t4: "textStr (heap ex_store3 4) = ''o''"
    by (simp_all add: ex_store3_def ex_node_def)
  show ?thesis
    using h TextPiece_deleteTowards_spec[OF h, of R "ex_cursor 1 (Some 2) (Some 3)"]
      TextPiece_deleteTowards_spec[OF h4, of L "ex_cursor 1 (Some 4) None"]
    by (auto simp add: t3 t4 ex_cursor_def)
qed

section \<open>Stepping the cursor through a text run\<close>

text \<open>
  Claim C10, as amended. \<^verbatim>\<open>moveTowards(dir)\<close> is called on the run \<open>p\<close> that the cursor has
  on its \<open>dir\<close> side. The character of \<open>p\<close> that is nearest to the cursor goes to the
  neighbour of \<open>p\<close> on the side opposite to the movement, the one the cursor has behind it,
  at the end of it that faces \<open>p\<close>; if there is no such neighbour, a new run that holds the
  character is created at the cursor. The character is then deleted from \<open>p\<close>, which is
  removed when it held no other character. The text on the left of the cursor grows by
  the character (shrinks, moving leftward), the text on its right shrinks (grows) by it,
  and the text of the region is the same before and after the step.
\<close>

theorem TextPiece_moveTowards_keeps_text:
  "(cursor_at s b c xs (p # ys) \<and>
    (\<forall>f. last_or None xs = Some f \<longrightarrow> kind (heap s f) = TextPiece) \<longrightarrow>
      (\<exists>s' c' xs' ys'. TextPiece_moveTowards p R s c = Inr (s', c') \<and>
         cursor_at s' b c' xs' ys' \<and>
         xs' = (if xs = [] then [fresh s] else xs) \<and>
         ys' = (if 1 < length (textStr (heap s p)) then p # ys else ys) \<and>
         texts s' xs' = texts s xs @ take 1 (textStr (heap s p)) \<and>
         texts s' ys' = drop 1 (textStr (heap s p)) @ texts s ys \<and>
         textContents s' b = textContents s b)) \<and>
   (cursor_at s b c (xs @ [p]) ys \<and>
    (\<forall>f. first_or None ys = Some f \<longrightarrow> kind (heap s f) = TextPiece) \<longrightarrow>
      (\<exists>s' c' xs' ys'. TextPiece_moveTowards p L s c = Inr (s', c') \<and>
         cursor_at s' b c' xs' ys' \<and>
         xs' = (if 1 < length (textStr (heap s p)) then xs @ [p] else xs) \<and>
         ys' = (if ys = [] then [fresh s] else ys) \<and>
         texts s' xs' = texts s xs @ butlast (textStr (heap s p)) \<and>
         texts s' ys' = endChar R (textStr (heap s p)) @ texts s ys \<and>
         textContents s' b = textContents s b))"
proof (intro conjI impI; elim conjE)
  assume c: "cursor_at s b c xs (p # ys)"
    and k: "\<forall>f. last_or None xs = Some f \<longrightarrow> kind (heap s f) = TextPiece"
  from moveTowards_R[OF c k] obtain s' c' xs' ys' where
    r: "TextPiece_moveTowards p R s c = Inr (s', c')" "cursor_at s' b c' xs' ys'"
       "xs' = (if xs = [] then [fresh s] else xs)"
       "ys' = (if 1 < length (textStr (heap s p)) then p # ys else ys)"
       "texts s' xs' = texts s xs @ take 1 (textStr (heap s p))"
       "texts s' ys' = drop 1 (textStr (heap s p)) @ texts s ys"
    by blast
  have "textContents s' b = Some (Inr (texts s' (xs' @ ys')))"
    using r(2) textContents_block[of s' b "xs' @ ys'"] by (simp add: cursor_at_def)
  moreover have "textContents s b = Some (Inr (texts s (xs @ p # ys)))"
    using c textContents_block[of s b "xs @ p # ys"] by (simp add: cursor_at_def)
  ultimately have "textContents s' b = textContents s b"
    using r(5,6) by simp
  with r show "\<exists>s' c' xs' ys'. TextPiece_moveTowards p R s c = Inr (s', c') \<and>
         cursor_at s' b c' xs' ys' \<and>
         xs' = (if xs = [] then [fresh s] else xs) \<and>
         ys' = (if 1 < length (textStr (heap s p)) then p # ys else ys) \<and>
         texts s' xs' = texts s xs @ take 1 (textStr (heap s p)) \<and>
         texts s' ys' = drop 1 (textStr (heap s p)) @ texts s ys \<and>
         textContents s' b = textContents s b"
    by blast
next
  assume c: "cursor_at s b c (xs @ [p]) ys"
    and k: "\<forall>f. first_or None ys = Some f \<longrightarrow> kind (heap s f) = TextPiece"
  from moveTowards_L[OF c k] obtain s' c' xs' ys' where
    r: "TextPiece_moveTowards p L s c = Inr (s', c')" "cursor_at s' b c' xs' ys'"
       "xs' = (if 1 < length (textStr (heap s p)) then xs @ [p] else xs)"
       "ys' = (if ys = [] then [fresh s] else ys)"
       "texts s' xs' = texts s xs @ butlast (textStr (heap s p))"
       "texts s' ys' = endChar R (textStr (heap s p)) @ texts s ys"
    by blast
  have "textContents s' b = Some (Inr (texts s' (xs' @ ys')))"
    using r(2) textContents_block[of s' b "xs' @ ys'"] by (simp add: cursor_at_def)
  moreover have "textContents s b = Some (Inr (texts s ((xs @ [p]) @ ys)))"
    using c textContents_block[of s b "(xs @ [p]) @ ys"] by (simp add: cursor_at_def)
  moreover have "butlast t @ endChar R t = t" for t :: string
    by (simp add: endChar_def)
  ultimately have "textContents s' b = textContents s b"
    using r(5,6) by simp
  with r show "\<exists>s' c' xs' ys'. TextPiece_moveTowards p L s c = Inr (s', c') \<and>
         cursor_at s' b c' xs' ys' \<and>
         xs' = (if 1 < length (textStr (heap s p)) then xs @ [p] else xs) \<and>
         ys' = (if ys = [] then [fresh s] else ys) \<and>
         texts s' xs' = texts s xs @ butlast (textStr (heap s p)) \<and>
         texts s' ys' = endChar R (textStr (heap s p)) @ texts s ys \<and>
         textContents s' b = textContents s b"
    by blast
qed

theorem TextPiece_moveTowards_keeps_text_witness:
  "cursor_at ex_store3 1 (ex_cursor 1 (Some 2) (Some 3)) [2] (3 # [4]) \<and>
   (\<exists>s' c'. TextPiece_moveTowards 3 R ex_store3 (ex_cursor 1 (Some 2) (Some 3)) = Inr (s', c') \<and>
      cursor_at s' 1 c' [2] [3, 4] \<and> texts s' [2] = ''he'' \<and> texts s' [3, 4] = ''llo'' \<and>
      textContents s' 1 = Some (Inr ''hello'')) \<and>
   cursor_at ex_store3 1 (ex_cursor 1 (Some 3) (Some 4)) ([2] @ [3]) [4] \<and>
   (\<exists>s' c'. TextPiece_moveTowards 3 L ex_store3 (ex_cursor 1 (Some 3) (Some 4)) = Inr (s', c') \<and>
      cursor_at s' 1 c' [2, 3] [4] \<and> texts s' [2, 3] = ''hel'' \<and> texts s' [4] = ''lo'' \<and>
      textContents s' 1 = Some (Inr ''hello''))"
proof -
  have t: "textStr (heap ex_store3 3) = ''ell''" "textStr (heap ex_store3 2) = ''h''"
    "textStr (heap ex_store3 4) = ''o''"
    by (simp_all add: ex_store3_def ex_node_def)
  show ?thesis
    using TextPiece_moveTowards_keeps_text[of ex_store3 1 "ex_cursor 1 (Some 2) (Some 3)" "[2]" 3 "[4]"]
      TextPiece_moveTowards_keeps_text[of ex_store3 1 "ex_cursor 1 (Some 3) (Some 4)" "[2]" 3 "[4]"]
      ex_store3_cursor_at ex_store3_kinds ex_store3_text
    by (auto simp add: t endChar_def)
qed

theorem TextPiece_moveTowards_direction_counterexample:
  "\<not> isl (TextPiece_moveTowards 3 R ex_store3 (ex_cursor 1 (Some 2) (Some 3))) \<and>
   textStr (heap (fst (projr (TextPiece_moveTowards 3 R ex_store3 (ex_cursor 1 (Some 2) (Some 3))))) 4) = ''o'' \<and>
   textStr (heap (fst (projr (TextPiece_moveTowards 3 R ex_store3 (ex_cursor 1 (Some 2) (Some 3))))) 2) = ''he'' \<and>
   textStr (heap (fst (projr (TextPiece_moveTowards 3 R ex_store3 (ex_cursor 1 (Some 2) (Some 3))))) 3) = ''ll''"
  by (simp add: TextPiece_moveTowards_def TextPiece_deleteTowards_def ex_store3_def ex_node_def
      ex_cursor_def endChar_def insTextAtDirEnd_def appendText_def Let_def aria_queue_def)

section \<open>Runs with an empty text\<close>

text \<open>
  The operations of a text run, one call at a time. From a region whose runs all hold at
  least one character, each of them leaves a well-linked region whose runs all hold at
  least one character: appending and prepending, splitting at an interior offset, deleting
  towards a direction (which removes the run from the region instead of leaving it empty
  when it holds one character), and the cursor's step and the selection's step through the
  run next to the cursor, in either direction. The split is the one operation with a
  condition on its argument: at the offset \<open>0\<close> or at the length of the run it leaves an
  empty run.
\<close>

lemma runs_stay_nonempty:
  assumes b: "block_children s b zs" and r: "runs_nonempty s zs"
  shows "(p \<in> set zs \<longrightarrow>
            block_children (appendText p t s) b zs \<and> runs_nonempty (appendText p t s) zs \<and>
            block_children (prependText p t s) b zs \<and> runs_nonempty (prependText p t s) zs) \<and>
         (zs = xs @ p # ys \<and> 0 < i \<and> i < length (textStr (heap s p)) \<longrightarrow>
            (\<exists>n s'. splitRight p i s = Inr (n, s') \<and>
               block_children s' b (xs @ p # n # ys) \<and> runs_nonempty s' (xs @ p # n # ys))) \<and>
         (zs = xs @ p # ys \<longrightarrow>
            (\<exists>s' c'. TextPiece_deleteTowards p d s c = Inr (s', c') \<and>
               block_children s' b (xs @ (if 1 < length (textStr (heap s p)) then [p] else []) @ ys) \<and>
               runs_nonempty s' (xs @ (if 1 < length (textStr (heap s p)) then [p] else []) @ ys))) \<and>
         (zs = xs @ p # ys \<and> cursor_at s b c xs (p # ys) \<longrightarrow>
            (\<exists>s' c' zs'. TextPiece_moveTowards p R s c = Inr (s', c') \<and>
               block_children s' b zs' \<and> runs_nonempty s' zs') \<and>
            (\<exists>s' c' zs'. TextPiece_selectTowards p R s c = Inr (s', c') \<and>
               block_children s' b zs' \<and> runs_nonempty s' zs')) \<and>
         (zs = xs @ p # ys \<and> cursor_at s b c (xs @ [p]) ys \<longrightarrow>
            (\<exists>s' c' zs'. TextPiece_moveTowards p L s c = Inr (s', c') \<and>
               block_children s' b zs' \<and> runs_nonempty s' zs') \<and>
            (\<exists>s' c' zs'. TextPiece_selectTowards p L s c = Inr (s', c') \<and>
               block_children s' b zs' \<and> runs_nonempty s' zs'))"
proof (intro conjI impI)
  assume p: "p \<in> set zs"
  show "block_children (appendText p t s) b zs" "block_children (prependText p t s) b zs"
    using b by (simp_all add: appendText_def prependText_def block_children_upd_textStr)
  show "runs_nonempty (appendText p t s) zs" "runs_nonempty (prependText p t s) zs"
    using r by (auto simp: appendText_def prependText_def runs_nonempty_def list_all_iff)
next
  assume h: "zs = xs @ p # ys \<and> 0 < i \<and> i < length (textStr (heap s p))"
  then have b': "block_children s b (xs @ p # ys)" and i: "i \<le> length (textStr (heap s p))"
    using b by auto
  from splitRight_children[OF b' i] obtain s' where
    s': "splitRight p i s = Inr (fresh s, s')" "block_children s' b (xs @ p # fresh s # ys)"
        "textStr (heap s' p) = take i (textStr (heap s p))"
        "textStr (heap s' (fresh s)) = drop i (textStr (heap s p))"
        "kind (heap s' (fresh s)) = TextPiece"
        "\<forall>x. x \<noteq> p \<and> x \<noteq> fresh s \<longrightarrow> textStr (heap s' x) = textStr (heap s x)"
        "\<forall>x. x \<noteq> fresh s \<longrightarrow> kind (heap s' x) = kind (heap s x) \<and>
                anticursorPosition (heap s' x) = anticursorPosition (heap s x)"
    by blast
  have np: "fresh s \<noteq> p" "fresh s \<notin> set xs" "fresh s \<notin> set ys" "p \<notin> set xs" "p \<notin> set ys"
    using block_children_fresh[OF b'] b' by (auto simp: block_children_def)
  have fr: "\<forall>x\<in>set xs \<union> set ys. textStr (heap s' x) = textStr (heap s x) \<and>
              kind (heap s' x) = kind (heap s x)"
  proof
    fix x assume "x \<in> set xs \<union> set ys"
    then have "x \<noteq> p" "x \<noteq> fresh s" using np by auto
    then show "textStr (heap s' x) = textStr (heap s x) \<and> kind (heap s' x) = kind (heap s x)"
      using s'(6,7) by simp
  qed
  have "runs_nonempty s' (xs @ p # fresh s # ys)"
    using r h fr s'(3,4,5,7) np(1)
    by (auto simp: runs_nonempty_def list_all_iff)
  with s' show "\<exists>n s'. splitRight p i s = Inr (n, s') \<and>
       block_children s' b (xs @ p # n # ys) \<and> runs_nonempty s' (xs @ p # n # ys)"
    by blast
next
  assume h: "zs = xs @ p # ys"
  with b r runs_nonempty_deleteTowards[of s b xs p ys d c]
  show "\<exists>s' c'. TextPiece_deleteTowards p d s c = Inr (s', c') \<and>
       block_children s' b (xs @ (if 1 < length (textStr (heap s p)) then [p] else []) @ ys) \<and>
       runs_nonempty s' (xs @ (if 1 < length (textStr (heap s p)) then [p] else []) @ ys)"
    by blast
next
  assume h: "zs = xs @ p # ys \<and> cursor_at s b c xs (p # ys)"
  then have c: "cursor_at s b c xs (p # ys)" and r': "runs_nonempty s (xs @ p # ys)"
    using r by auto
  show m: "\<exists>s' c' zs'. TextPiece_moveTowards p R s c = Inr (s', c') \<and>
       block_children s' b zs' \<and> runs_nonempty s' zs'"
    using runs_nonempty_moveTowards_R[OF c r'] .
  show "\<exists>s' c' zs'. TextPiece_selectTowards p R s c = Inr (s', c') \<and>
       block_children s' b zs' \<and> runs_nonempty s' zs'"
  proof (rule runs_nonempty_selectTowards[OF m _ b r])
    fix a assume "anticursor c = Some a" "pdir R a = Some p"
    then show "\<exists>s' c' zs'. TextPiece_selectTowards p R s c = Inr (s', c') \<and>
       block_children s' b zs' \<and> runs_nonempty s' zs'"
      using selectTowards_first_R[OF c _ _ r', of a] by auto
  qed
next
  assume h: "zs = xs @ p # ys \<and> cursor_at s b c (xs @ [p]) ys"
  then have c: "cursor_at s b c (xs @ [p]) ys" and r': "runs_nonempty s (xs @ p # ys)"
    using r by auto
  show m: "\<exists>s' c' zs'. TextPiece_moveTowards p L s c = Inr (s', c') \<and>
       block_children s' b zs' \<and> runs_nonempty s' zs'"
    using runs_nonempty_moveTowards_L[OF c r'] .
  show "\<exists>s' c' zs'. TextPiece_selectTowards p L s c = Inr (s', c') \<and>
       block_children s' b zs' \<and> runs_nonempty s' zs'"
  proof (rule runs_nonempty_selectTowards[OF m _ b r])
    fix a assume "anticursor c = Some a" "pdir L a = Some p"
    then show "\<exists>s' c' zs'. TextPiece_selectTowards p L s c = Inr (s', c') \<and>
       block_children s' b zs' \<and> runs_nonempty s' zs'"
      using selectTowards_first_L[OF c _ _ r', of a] by auto
  qed
qed

lemma runs_stay_nonempty_example:
  "block_children ex_store3 1 [2, 3, 4] \<and> runs_nonempty ex_store3 [2, 3, 4] \<and>
   (\<exists>n s'. splitRight 3 1 ex_store3 = Inr (n, s') \<and>
      block_children s' 1 [2, 3, n, 4] \<and> runs_nonempty s' [2, 3, n, 4]) \<and>
   (\<exists>s' c'. TextPiece_deleteTowards 4 L ex_store3 (ex_cursor 1 (Some 4) None) = Inr (s', c') \<and>
      block_children s' 1 [2, 3] \<and> runs_nonempty s' [2, 3]) \<and>
   (\<exists>s' c' zs'. TextPiece_moveTowards 3 R ex_store3 (ex_cursor 1 (Some 2) (Some 3)) = Inr (s', c') \<and>
      block_children s' 1 zs' \<and> runs_nonempty s' zs')"
proof -
  have b: "block_children ex_store3 1 [2, 3, 4]"
    using ex_store3_children by simp
  have t: "textStr (heap ex_store3 3) = ''ell''" "textStr (heap ex_store3 4) = ''o''"
    by (simp_all add: ex_store3_def ex_node_def)
  show ?thesis
    using b ex_store3_runs ex_store3_cursor_at(1)
      runs_stay_nonempty[OF b ex_store3_runs, of 3 "[]" "[2]" "[4]" 1 R "ex_cursor 1 (Some 2) (Some 3)"]
      runs_stay_nonempty[OF b ex_store3_runs, of 4 "[]" "[2, 3]" "[]" 1 L "ex_cursor 1 (Some 4) None"]
    by (simp add: t)
qed

text \<open>
  Claim C6 says that no run with an empty text is ever left in a region. \<^verbatim>\<open>seek\<close> splits a
  neighbour of the cursor at the cached offset of the anticursor, which is \<open>0\<close> for a drag
  that started at the left end of the text. In the example the region \<open>1\<close> holds \<open>hello\<close>.
  The first \<^verbatim>\<open>seek\<close>, at the left end and with no anticursor, fuses the runs into the run
  \<open>5\<close>, puts the cursor at the left end and caches the offset \<open>0\<close>. The drag starts there:
  the anticursor is the position of the cursor. The second \<^verbatim>\<open>seek\<close>, at the offset \<open>4\<close>,
  fuses the text into the run \<open>6\<close>, splits it into \<open>hell\<close> and \<open>o\<close> at the cursor and then
  calls \<^verbatim>\<open>splitRight(0)\<close> on the left neighbour \<open>6\<close> of the cursor: the run \<open>6\<close> is left with the
  empty text, as the first child of the region and the left neighbour of the anticursor.
\<close>

theorem TextBlock_seek_leaves_empty_run:
  "\<exists>s1 c1 s2 c2.
     TextBlock_seek 1 [DomText ''h'', DomText ''ell'', DomText ''o''] 1 0 ex_displ
       ex_store3 (ex_cursor 0 None (Some 1)) = Some (Inr (s1, c1)) \<and>
     block_children s1 1 [5] \<and> runs_nonempty s1 [5] \<and> textStr (heap s1 5) = ''hello'' \<and>
     anticursorPosition (heap s1 1) = Some 0 \<and> c1 = ex_cursor 1 None (Some 5) \<and>
     TextBlock_seek 1 [DomText ''hello''] 1 4 ex_displ s1
       (c1\<lparr>anticursor := Some \<lparr>pparent = cparent c1, pL = cL c1, pR = cR c1\<rparr>\<rparr>) =
       Some (Inr (s2, c2)) \<and>
     block_children s2 1 [6, 8, 7] \<and>
     kind (heap s2 6) = TextPiece \<and> textStr (heap s2 6) = [] \<and>
     textStr (heap s2 8) = ''hell'' \<and> textStr (heap s2 7) = ''o'' \<and>
     cparent c2 = 1 \<and> cL c2 = Some 8 \<and> cR c2 = Some 7 \<and>
     anticursor c2 = Some \<lparr>pparent = 1, pL = Some 6, pR = Some 8\<rparr> \<and>
     \<not> runs_nonempty s2 [6, 8, 7]"
  apply (subst TextBlock_seek_def)
  apply (simp add: TextBlockFuseChildren_def children_disown_def frag_disown_def
      ex_store3_def ex_node_def ex_cursor_def ex_displ_def
      new_node_def adopt_def upd_def Let_def seek_place_def splitRight_def insLeftOf_def
      insDirOf_def insAtDirEnd_def)
  apply (subst seek_loop.simps)
  apply (simp add: seek_anticursor_def cursorPosition_def splitRight_def new_node_def adopt_def
      upd_def Let_def block_children_def runs_nonempty_def)
  apply (subst TextBlock_seek_def)
  apply (simp add: TextBlockFuseChildren_def children_disown_def frag_disown_def
      ex_displ_def
      new_node_def adopt_def upd_def Let_def seek_place_def splitRight_def insLeftOf_def
      insDirOf_def insAtDirEnd_def)
  apply (subst seek_loop.simps)
  apply (simp add: seek_anticursor_def cursorPosition_def splitRight_def new_node_def adopt_def
      upd_def Let_def block_children_def runs_nonempty_def)
  done

text \<open>
  The same at the other end: for a drag that started at the right end of the text the
  cached offset is \<open>5\<close>, and \<^verbatim>\<open>seek\<close> at the offset \<open>2\<close> splits the right neighbour \<open>llo\<close> of the
  cursor at its length, which leaves the new run \<open>8\<close> with the empty text.
\<close>

lemma TextBlock_seek_leaves_empty_run_right:
  "\<exists>s1 c1 s2 c2.
     TextBlock_seek 1 [DomText ''h'', DomText ''ell'', DomText ''o''] 1 5 ex_displ
       ex_store3 (ex_cursor 0 None (Some 1)) = Some (Inr (s1, c1)) \<and>
     block_children s1 1 [5] \<and> runs_nonempty s1 [5] \<and> textStr (heap s1 5) = ''hello'' \<and>
     anticursorPosition (heap s1 1) = Some 5 \<and> c1 = ex_cursor 1 (Some 5) None \<and>
     TextBlock_seek 1 [DomText ''hello''] 1 2 ex_displ s1
       (c1\<lparr>anticursor := Some \<lparr>pparent = cparent c1, pL = cL c1, pR = cR c1\<rparr>\<rparr>) =
       Some (Inr (s2, c2)) \<and>
     block_children s2 1 [6, 7, 8] \<and>
     textStr (heap s2 6) = ''he'' \<and> textStr (heap s2 7) = ''llo'' \<and>
     kind (heap s2 8) = TextPiece \<and> textStr (heap s2 8) = [] \<and>
     cparent c2 = 1 \<and> cL c2 = Some 6 \<and> cR c2 = Some 7 \<and>
     anticursor c2 = Some \<lparr>pparent = 1, pL = Some 7, pR = Some 8\<rparr> \<and>
     \<not> runs_nonempty s2 [6, 7, 8]"
  apply (subst TextBlock_seek_def)
  apply (simp add: TextBlockFuseChildren_def children_disown_def frag_disown_def
      ex_store3_def ex_node_def ex_cursor_def ex_displ_def
      new_node_def adopt_def upd_def Let_def seek_place_def splitRight_def insLeftOf_def
      insDirOf_def insAtDirEnd_def)
  apply (subst seek_loop.simps)
  apply (simp add: seek_anticursor_def cursorPosition_def splitRight_def new_node_def adopt_def
      upd_def Let_def block_children_def runs_nonempty_def)
  apply (subst TextBlock_seek_def)
  apply (simp add: TextBlockFuseChildren_def children_disown_def frag_disown_def
      ex_displ_def
      new_node_def adopt_def upd_def Let_def seek_place_def splitRight_def insLeftOf_def
      insDirOf_def insAtDirEnd_def)
  apply (subst seek_loop.simps)
  apply (simp add: seek_anticursor_def cursorPosition_def split_cursorR_def splitRight_def new_node_def adopt_def
      upd_def Let_def block_children_def runs_nonempty_def)
  done

end
